theory Spec2Isabelle
  imports Complex_Main "HOL-Library.Log_Nat"
begin

section \<open>Data model (types.ts)\<close>

text \<open>
  The enumerations and the feedback record of the application. A score field holds the
  number as the reply or the code writes it (a real number); the JavaScript value of the
  field is the IEEE double nearest to it, and is taken where the code computes with the
  field (\<open>binary64\<close> below). The handlers of the exam only store and copy feedback
  records. The three optional fields of \<open>FeedbackData\<close> (fluencyScore,
  vocabularyScore, idiomScore) are only written in free-conversation mode and are left
  out.
\<close>

datatype ExamPart = INTRO | PICTURE | DISCUSSION

datatype ExamStatus =
  IDLE | AI_SPEAKING | USER_PREP | USER_SPEAKING | PROCESSING | PART_COMPLETED | COMPLETED

record Mistake =
  mistake :: string
  correction :: string
  mistake_type :: string

record FeedbackData =
  taskAchievementScore :: real
  pronunciationScore :: real
  grammarScore :: real
  fluencyCoherenceScore :: real
  feedbackText :: string
  mistakesAndCorrections :: "Mistake list"
  weaknesses :: "string list"
  improvements :: "string list"

section \<open>Score aggregation (ExamMode.tsx, calculateTotalScore)\<close>

subsection \<open>JavaScript numbers\<close>

text \<open>
  A finite JavaScript number is an IEEE-754 binary64 value: an integer of magnitude below
  \<open>2^53\<close> times a power of two with exponent at least \<open>-1074\<close>, of magnitude
  below \<open>2^1024\<close>. \<open>binary64 x\<close> is the number a real \<open>x\<close> is rounded to:
  the nearest multiple of the unit in the last place of \<open>x\<close>, the even one of two
  nearest; \<open>None\<close> stands for a result that is not finite (\<open>Infinity\<close>, and
  from there on \<open>NaN\<close>). A decimal in a reply or in the code denotes
  \<open>binary64\<close> of its value, and \<open>a + b\<close> is \<open>binary64\<close> of the exact sum.
  The sign of zero is not kept; no read below depends on it.

  For \<open>2^E \<le> \<bar>x\<bar> < 2^(E+1)\<close> the integer \<open>\<lfloor>\<bar>x\<bar> * 2^1074\<rfloor>\<close> has
  \<open>E + 1075\<close> binary digits, so the exponent of the unit in the last place is
  \<open>E - 52\<close>, and \<open>-1074\<close> in the subnormal range (lemma \<open>ulp_exponent_eq\<close>).
\<close>

definition round_half_even :: "real \<Rightarrow> int" where
  "round_half_even y =
     (let n = \<lfloor>y\<rfloor>; d = y - of_int n
      in if d < 1/2 then n else if 1/2 < d then n + 1 else if even n then n else n + 1)"

definition ulp_exponent :: "real \<Rightarrow> int" where
  "ulp_exponent x = max (bitlen \<lfloor>\<bar>x\<bar> * 2 ^ 1074\<rfloor> - 1127) (- 1074)"

definition binary64 :: "real \<Rightarrow> real option" where
  "binary64 x =
     (let e = ulp_exponent x;
          r = of_int (round_half_even (x / 2 powi e)) * 2 powi e
      in if \<bar>r\<bar> < 2 ^ 1024 then Some r else None)"

definition js_add :: "real option \<Rightarrow> real option \<Rightarrow> real option" where
  "js_add a b = (case (a, b) of (Some x, Some y) \<Rightarrow> binary64 (x + y) | _ \<Rightarrow> None)"

text \<open>
  \<open>x.toFixed(1)\<close>, as the number it displays: for \<open>\<bar>x\<bar> < 10^21\<close> the
  multiple \<open>n / 10\<close> nearest to the exact value of \<open>x\<close>, the larger \<open>n\<close> of two
  nearest, with the sign of \<open>x\<close> put in front.
\<close>

definition toFixed_1 :: "real \<Rightarrow> real" where
  "toFixed_1 x =
     (if 10 ^ 21 \<le> \<bar>x\<bar> then x
      else if x < 0 then - (of_int \<lfloor>10 * (- x) + 1/2\<rfloor> / 10)
      else of_int \<lfloor>10 * x + 1/2\<rfloor> / 10)"

subsection \<open>The aggregate score\<close>

text \<open>
  \<open>resultsHistory\<close> is a \<open>Record<number, FeedbackData>\<close> keyed by the part number
  (1, 2, 3). \<open>Object.values\<close> lists the values of integer keys in ascending key order,
  that is in the order INTRO, PICTURE, DISCUSSION, skipping the parts without an entry.
  \<open>reduce\<close> starts from 0 and adds the four sub-scores of each record from left to
  right. The final report shows \<open>calculateTotalScore().toFixed(1)\<close>. The sub-scores
  are numbers, as the interface \<open>FeedbackData\<close> declares.
\<close>

definition Object_values :: "(ExamPart \<Rightarrow> FeedbackData option) \<Rightarrow> FeedbackData list" where
  "Object_values h = List.map_filter h [INTRO, PICTURE, DISCUSSION]"

definition calculateTotalScore :: "(ExamPart \<Rightarrow> FeedbackData option) \<Rightarrow> real option" where
  "calculateTotalScore h =
     foldl (\<lambda>acc f. js_add (js_add (js_add (js_add acc (binary64 (taskAchievementScore f)))
                        (binary64 (pronunciationScore f))) (binary64 (grammarScore f)))
                        (binary64 (fluencyCoherenceScore f)))
       (Some 0) (Object_values h)"

text \<open>The exact sum of the four sub-scores of one record.\<close>

definition pScore :: "FeedbackData \<Rightarrow> real" where
  "pScore f = taskAchievementScore f + pronunciationScore f
              + grammarScore f + fluencyCoherenceScore f"

definition scores :: "real \<Rightarrow> real \<Rightarrow> real \<Rightarrow> real \<Rightarrow> FeedbackData" where
  "scores t p g f =
     \<lparr> taskAchievementScore = t, pronunciationScore = p, grammarScore = g,
       fluencyCoherenceScore = f, feedbackText = [], mistakesAndCorrections = [],
       weaknesses = [], improvements = [] \<rparr>"

text \<open>
  The exact sum of the sub-scores of all records, and two classes of sub-scores: the
  multiples of one tenth and the multiples of one half, between 0 and 1000000.
\<close>

definition exact_total :: "(ExamPart \<Rightarrow> FeedbackData option) \<Rightarrow> real" where
  "exact_total h = (\<Sum>p\<in>UNIV. case h p of None \<Rightarrow> 0 | Some f \<Rightarrow> pScore f)"

definition tenth_mark :: "real \<Rightarrow> bool" where
  "tenth_mark x = (0 \<le> x \<and> x \<le> 1000000 \<and> of_int \<lfloor>10 * x\<rfloor> = 10 * x)"

definition tenth_marks :: "FeedbackData \<Rightarrow> bool" where
  "tenth_marks f = (tenth_mark (taskAchievementScore f) \<and> tenth_mark (pronunciationScore f)
                    \<and> tenth_mark (grammarScore f) \<and> tenth_mark (fluencyCoherenceScore f))"

definition half_mark :: "real \<Rightarrow> bool" where
  "half_mark x = (0 \<le> x \<and> x \<le> 1000000 \<and> of_int \<lfloor>2 * x\<rfloor> = 2 * x)"

definition half_marks :: "FeedbackData \<Rightarrow> bool" where
  "half_marks f = (half_mark (taskAchievementScore f) \<and> half_mark (pronunciationScore f)
                   \<and> half_mark (grammarScore f) \<and> half_mark (fluencyCoherenceScore f))"

subsection \<open>Rounding\<close>

text \<open>
  A number that is an integer below \<open>2^53\<close> times a power of two is rounded to
  itself, so sums of multiples of one half are exact; a number of magnitude at most
  \<open>2^24\<close> is rounded to a number within \<open>2^-29\<close> of it, so the sum of twelve
  sub-scores is computed with an error below one twentieth, which \<open>toFixed(1)\<close>
  removes when the exact sum is a multiple of one tenth.
\<close>

lemma round_half_even_of_int: "round_half_even (of_int k) = k"
  by (simp add: round_half_even_def)

lemma round_half_even_near:
  "of_int n - 1/2 < y \<Longrightarrow> y < of_int n + 1/2 \<Longrightarrow> round_half_even y = n"
proof -
  assume a: "of_int n - 1/2 < y" and b: "y < of_int n + 1/2"
  have "\<lfloor>y\<rfloor> = n \<or> \<lfloor>y\<rfloor> = n - 1" using a b by linarith
  then show ?thesis
  proof
    assume f: "\<lfloor>y\<rfloor> = n"
    then show ?thesis using b by (simp add: round_half_even_def Let_def)
  next
    assume f: "\<lfloor>y\<rfloor> = n - 1"
    then show ?thesis using a by (simp add: round_half_even_def Let_def)
  qed
qed

lemma round_half_even_tie:
  "y = of_int n + 1/2 \<Longrightarrow> round_half_even y = (if even n then n else n + 1)"
proof -
  assume y: "y = of_int n + 1/2"
  have "\<lfloor>y\<rfloor> = n" unfolding y by linarith
  then show ?thesis by (simp add: round_half_even_def Let_def y)
qed

lemma ulp_exponent_le:
  assumes "\<bar>x\<bar> < 2 powi (j + 53)" and "- 1074 \<le> j"
  shows "ulp_exponent x \<le> j"
proof -
  define c :: nat where "c = 1074"
  have ci: "int c = 1074" by (simp add: c_def)
  have "\<bar>x\<bar> * 2 ^ c < 2 powi (j + 53) * 2 ^ c"
    using assms(1) by simp
  also have "\<dots> = 2 powi (j + 53) * 2 powi (int c)" by simp
  also have "\<dots> = 2 powi (j + 53 + int c)" by (simp add: power_int_add)
  also have "\<dots> = 2 ^ nat (j + 53 + int c)" using assms(2) ci by (simp add: power_int_def)
  finally have "real_of_int \<lfloor>\<bar>x\<bar> * 2 ^ c\<rfloor> < 2 ^ nat (j + 53 + int c)"
    by linarith
  then have "\<lfloor>\<bar>x\<bar> * 2 ^ c\<rfloor> < 2 ^ nat (j + 53 + int c)"
    by (metis of_int_less_iff of_int_numeral of_int_power)
  then have "bitlen \<lfloor>\<bar>x\<bar> * 2 ^ c\<rfloor> \<le> j + 53 + int c"
    using assms(2) ci by (simp add: bitlen_le_iff_power)
  then have "max (bitlen \<lfloor>\<bar>x\<bar> * 2 ^ c\<rfloor> - 1127) (- 1074) \<le> j"
    using assms(2) ci by linarith
  then show ?thesis unfolding ulp_exponent_def c_def .
qed

lemma ulp_exponent_eq:
  assumes "2 powi E \<le> \<bar>x\<bar>" and "\<bar>x\<bar> < 2 powi (E + 1)" and "- 1022 \<le> E"
  shows "ulp_exponent x = E - 52"
proof (rule antisym)
  have "\<bar>x\<bar> < 2 powi (E - 52 + 53)" using assms(2) by (simp add: add.commute)
  then show "ulp_exponent x \<le> E - 52"
    by (rule ulp_exponent_le) (use assms(3) in simp)
  define c :: nat where "c = 1074"
  have ci: "int c = 1074" by (simp add: c_def)
  have "real_of_int (2 ^ nat (E + int c)) = 2 ^ nat (E + int c)" by simp
  also have "\<dots> = 2 powi (E + int c)" using assms(3) ci by (simp add: power_int_def)
  also have "\<dots> = 2 powi E * 2 ^ c" by (simp add: power_int_add)
  also have "\<dots> \<le> \<bar>x\<bar> * 2 ^ c" using assms(1) by simp
  finally have "real_of_int (2 ^ nat (E + int c)) \<le> \<bar>x\<bar> * 2 ^ c" .
  then have "2 ^ nat (E + int c) \<le> \<lfloor>\<bar>x\<bar> * 2 ^ c\<rfloor>" by (simp only: le_floor_iff)
  moreover have "nat (E + int c + 1) - 1 = nat (E + int c)" using assms(3) ci by linarith
  ultimately have "E + int c + 1 \<le> bitlen \<lfloor>\<bar>x\<bar> * 2 ^ c\<rfloor>"
    by (simp add: bitlen_ge_iff_power)
  then have "E - 52 \<le> max (bitlen \<lfloor>\<bar>x\<bar> * 2 ^ c\<rfloor> - 1127) (- 1074)"
    using ci by linarith
  then show "E - 52 \<le> ulp_exponent x" unfolding ulp_exponent_def c_def .
qed

lemma binary64_eqI:
  assumes "ulp_exponent x = e" and "round_half_even (x / 2 powi e) = n"
    and "\<bar>of_int n * 2 powi e\<bar> < (2::real) ^ 1024"
  shows "binary64 x = Some (of_int n * 2 powi e)"
  using assms by (simp add: binary64_def Let_def)

lemma binary64_dyadic:
  assumes n: "\<bar>n\<bar> < 2 ^ 53" and j: "- 1074 \<le> j"
    and r: "\<bar>of_int n * 2 powi j\<bar> < (2::real) ^ 1024"
  shows "binary64 (of_int n * 2 powi j) = Some (of_int n * 2 powi j)"
proof -
  define x :: real where "x = of_int n * 2 powi j"
  define e where "e = ulp_exponent x"
  have "\<bar>x\<bar> = of_int \<bar>n\<bar> * 2 powi j" by (simp add: x_def abs_mult)
  also have "\<dots> < 2 ^ 53 * 2 powi j"
  proof -
    have "real_of_int \<bar>n\<bar> < 2 ^ 53" using n by (metis of_int_less_iff of_int_numeral of_int_power)
    then show ?thesis by simp
  qed
  also have "\<dots> = 2 powi (j + 53)" by (simp add: power_int_add)
  finally have "e \<le> j" unfolding e_def using j by (rule ulp_exponent_le)
  then have d: "2 powi (j - e) = (2::real) ^ nat (j - e)" by (simp add: power_int_def)
  have s: "(2::real) powi j = 2 powi (j - e) * 2 powi e" by (simp flip: power_int_add)
  have q: "x / 2 powi e = of_int (n * 2 ^ nat (j - e))"
    unfolding x_def s d by simp
  have "round_half_even (x / 2 powi e) = n * 2 ^ nat (j - e)"
    unfolding q by (rule round_half_even_of_int)
  moreover have "of_int (n * 2 ^ nat (j - e)) * 2 powi e = x"
    unfolding x_def s d by simp
  ultimately have "binary64 x = Some x"
    using r by (simp add: binary64_def Let_def e_def [symmetric] x_def [symmetric])
  then show ?thesis by (simp add: x_def)
qed

lemma binary64_half:
  assumes "2 * x \<in> \<int>" and "\<bar>x\<bar> < 2 ^ 52"
  shows "binary64 x = Some x"
proof -
  from assms(1) obtain n where n: "2 * x = of_int n" by (rule Ints_cases)
  have "(2::real) powi (- 1) = 1 / 2" by (simp add: power_int_minus)
  then have x: "of_int n * 2 powi (- 1) = x" unfolding n [symmetric] by simp
  have "real_of_int \<bar>n\<bar> = \<bar>2 * x\<bar>" by (simp only: of_int_abs n)
  also have "\<dots> < 2 ^ 53" using assms(2) by simp
  finally have b: "\<bar>n\<bar> < 2 ^ 53"
    by (metis of_int_less_iff of_int_numeral of_int_power)
  have "(2::real) ^ 52 \<le> 2 ^ 1024" by (rule power_increasing) simp_all
  then have "\<bar>of_int n * 2 powi (- 1)\<bar> < (2::real) ^ 1024"
    unfolding x using assms(2) by linarith
  then have "binary64 (of_int n * 2 powi (- 1)) = Some (of_int n * 2 powi (- 1))"
    by (intro binary64_dyadic b) simp_all
  then show ?thesis unfolding x .
qed

lemma half_mark_Ints: "half_mark x \<Longrightarrow> 2 * x \<in> \<int>"
  by (metis half_mark_def Ints_of_int)

lemma js_add_half:
  assumes a: "2 * a \<in> \<int>" "0 \<le> a" "a \<le> 2 ^ 50" and y: "half_mark y"
  shows "js_add (Some a) (binary64 y) = Some (a + y)"
    and "2 * (a + y) \<in> \<int>"
proof -
  have y': "2 * y \<in> \<int>" "0 \<le> y" "y \<le> 2 ^ 40"
    using y half_mark_Ints [OF y] by (simp_all add: half_mark_def)
  have "\<bar>y\<bar> < 2 ^ 52" using y'(2,3) by simp
  then have eqy: "binary64 y = Some y" by (rule binary64_half [OF y'(1)])
  show s: "2 * (a + y) \<in> \<int>" unfolding distrib_left by (rule Ints_add [OF a(1) y'(1)])
  have "\<bar>a + y\<bar> < 2 ^ 52" using y'(2,3) a(2,3) by simp
  then have "binary64 (a + y) = Some (a + y)" by (rule binary64_half [OF s])
  then show "js_add (Some a) (binary64 y) = Some (a + y)" by (simp add: js_add_def eqy)
qed

lemma record_sum_exact:
  assumes a: "2 * a \<in> \<int>" "0 \<le> a" "a \<le> 2 ^ 49" and f: "half_marks f"
  shows "js_add (js_add (js_add (js_add (Some a) (binary64 (taskAchievementScore f)))
            (binary64 (pronunciationScore f))) (binary64 (grammarScore f)))
            (binary64 (fluencyCoherenceScore f)) = Some (a + pScore f)"
    and "2 * (a + pScore f) \<in> \<int>"
    and "0 \<le> a + pScore f" and "a + pScore f \<le> a + 2 ^ 42"
proof -
  have t: "half_mark (taskAchievementScore f)" and p: "half_mark (pronunciationScore f)"
    and g: "half_mark (grammarScore f)" and c: "half_mark (fluencyCoherenceScore f)"
    using f by (simp_all add: half_marks_def)
  have b: "0 \<le> taskAchievementScore f" "taskAchievementScore f \<le> 2 ^ 40"
          "0 \<le> pronunciationScore f" "pronunciationScore f \<le> 2 ^ 40"
          "0 \<le> grammarScore f" "grammarScore f \<le> 2 ^ 40"
          "0 \<le> fluencyCoherenceScore f" "fluencyCoherenceScore f \<le> 2 ^ 40"
    using t p g c by (simp_all add: half_mark_def)
  define a1 where "a1 = a + taskAchievementScore f"
  define a2 where "a2 = a1 + pronunciationScore f"
  define a3 where "a3 = a2 + grammarScore f"
  have r1: "a \<le> 2 ^ 50" using a(3) by simp
  have s1: "js_add (Some a) (binary64 (taskAchievementScore f)) = Some a1"
    and h1: "2 * a1 \<in> \<int>"
    unfolding a1_def by (rule js_add_half [OF a(1,2) r1 t])+
  have r2: "0 \<le> a1" "a1 \<le> 2 ^ 50" using a(2,3) b by (simp_all add: a1_def)
  have s2: "js_add (Some a1) (binary64 (pronunciationScore f)) = Some a2"
    and h2: "2 * a2 \<in> \<int>"
    unfolding a2_def by (rule js_add_half [OF h1 r2 p])+
  have r3: "0 \<le> a2" "a2 \<le> 2 ^ 50" using a(2,3) b by (simp_all add: a1_def a2_def)
  have s3: "js_add (Some a2) (binary64 (grammarScore f)) = Some a3"
    and h3: "2 * a3 \<in> \<int>"
    unfolding a3_def by (rule js_add_half [OF h2 r3 g])+
  have r4: "0 \<le> a3" "a3 \<le> 2 ^ 50" using a(2,3) b by (simp_all add: a1_def a2_def a3_def)
  have s4: "js_add (Some a3) (binary64 (fluencyCoherenceScore f)) = Some (a3 + fluencyCoherenceScore f)"
    and h4: "2 * (a3 + fluencyCoherenceScore f) \<in> \<int>"
    by (rule js_add_half [OF h3 r4 c])+
  have e: "a3 + fluencyCoherenceScore f = a + pScore f"
    by (simp add: a1_def a2_def a3_def pScore_def)
  show "js_add (js_add (js_add (js_add (Some a) (binary64 (taskAchievementScore f)))
            (binary64 (pronunciationScore f))) (binary64 (grammarScore f)))
            (binary64 (fluencyCoherenceScore f)) = Some (a + pScore f)"
    unfolding s1 s2 s3 s4 e ..
  show "2 * (a + pScore f) \<in> \<int>" using h4 unfolding e .
  show "0 \<le> a + pScore f" using a(2) b by (simp add: pScore_def)
  show "a + pScore f \<le> a + 2 ^ 42" using b by (simp add: pScore_def)
qed

lemma fold_sum_exact:
  assumes "\<forall>f \<in> set fs. half_marks f" and "2 * a \<in> \<int>" and "0 \<le> a"
    and "a + 2 ^ 42 * real (length fs) \<le> 2 ^ 49"
  shows "foldl (\<lambda>acc f. js_add (js_add (js_add (js_add acc (binary64 (taskAchievementScore f)))
                        (binary64 (pronunciationScore f))) (binary64 (grammarScore f)))
                        (binary64 (fluencyCoherenceScore f))) (Some a) fs
           = Some (a + sum_list (map pScore fs))
       \<and> 2 * (a + sum_list (map pScore fs)) \<in> \<int>
       \<and> 0 \<le> a + sum_list (map pScore fs)
       \<and> sum_list (map pScore fs) \<le> 2 ^ 42 * real (length fs)"
  using assms
proof (induction fs arbitrary: a)
  case Nil
  then show ?case by simp
next
  case (Cons f fs)
  have f: "half_marks f" and fs: "\<forall>f \<in> set fs. half_marks f" using Cons.prems(1) by simp_all
  have l: "a + 2 ^ 42 + 2 ^ 42 * real (length fs) \<le> 2 ^ 49"
    using Cons.prems(4) by (simp add: algebra_simps)
  have "0 \<le> (2::real) ^ 42 * real (length fs)" by simp
  moreover have "0 \<le> (2::real) ^ 42" by simp
  ultimately have a49: "a \<le> 2 ^ 49" using l by linarith
  note r = record_sum_exact [OF Cons.prems(2,3) a49 f]
  have "a + pScore f + 2 ^ 42 * real (length fs) \<le> 2 ^ 49" using r(4) l by linarith
  from Cons.IH [OF fs r(2) r(3) this] r(4) show ?case
    by (simp add: r(1) add.assoc algebra_simps)
qed

lemma toFixed_1_half:
  assumes "2 * x \<in> \<int>" and "0 \<le> x" and "x < 10 ^ 21"
  shows "toFixed_1 x = x"
proof -
  from assms(1) obtain n where n: "2 * x = of_int n" by (rule Ints_cases)
  have "10 * x + 1 / 2 = 5 * (2 * x) + 1 / 2" by simp
  also have "\<dots> = of_int (5 * n) + 1 / 2" unfolding n by simp
  finally have "\<lfloor>10 * x + 1 / 2\<rfloor> = 5 * n" by linarith
  then have "of_int \<lfloor>10 * x + 1 / 2\<rfloor> / 10 = (5 * (2 * x)) / 10"
    unfolding n by simp
  then show ?thesis using assms(2,3) by (simp add: toFixed_1_def)
qed

lemma ExamPart_UNIV: "(UNIV :: ExamPart set) = {INTRO, PICTURE, DISCUSSION}"
proof -
  have "p \<in> {INTRO, PICTURE, DISCUSSION}" for p :: ExamPart
    by (cases p) simp_all
  then show ?thesis by blast
qed

lemma round_half_even_error: "\<bar>of_int (round_half_even y) - y\<bar> \<le> 1 / 2"
  by (simp add: round_half_even_def Let_def)

lemma round_half_even_nonneg: "0 \<le> y \<Longrightarrow> 0 \<le> round_half_even y"
  by (simp add: round_half_even_def Let_def)

lemma binary64_close:
  assumes "\<bar>x\<bar> \<le> 2 ^ 24"
  shows "\<exists>r. binary64 x = Some r \<and> \<bar>r - x\<bar> \<le> 1 / 2 ^ 29 \<and> (0 \<le> x \<longrightarrow> 0 \<le> r)"
proof -
  define e where "e = ulp_exponent x"
  define y :: real where "y = x / 2 powi e"
  define r :: real where "r = of_int (round_half_even y) * 2 powi e"
  have "\<bar>x\<bar> < 2 powi (- 28 + 53)" using assms by simp
  then have e28: "e \<le> - 28" unfolding e_def by (rule ulp_exponent_le) simp
  have p: "(0::real) < 2 powi e" by simp
  have x: "x = y * 2 powi e" by (simp add: y_def)
  have "r - x = (of_int (round_half_even y) - y) * 2 powi e"
    unfolding r_def x [symmetric] by (simp add: algebra_simps x [symmetric])
  then have "\<bar>r - x\<bar> = \<bar>of_int (round_half_even y) - y\<bar> * 2 powi e"
    by (simp add: abs_mult)
  also have "\<dots> \<le> 1 / 2 * 2 powi e"
    by (rule mult_right_mono [OF round_half_even_error]) simp
  also have "\<dots> \<le> 1 / 2 * 2 powi (- 28)"
  proof -
    have "(2::real) powi e \<le> 2 powi (- 28)" using e28 by (intro power_int_increasing) simp_all
    then show ?thesis by simp
  qed
  also have "\<dots> = 1 / 2 ^ 29" by simp
  finally have c: "\<bar>r - x\<bar> \<le> 1 / 2 ^ 29" .
  have "\<bar>r\<bar> \<le> \<bar>x\<bar> + \<bar>r - x\<bar>" by linarith
  also have "\<dots> \<le> 2 ^ 24 + 1 / 2 ^ 29" using assms c by linarith
  also have "\<dots> < 2 ^ 25" by simp
  also have "(2::real) ^ 25 \<le> 2 ^ 1024" by (rule power_increasing) simp_all
  finally have "\<bar>r\<bar> < 2 ^ 1024" .
  then have b: "binary64 x = Some r"
    by (simp add: binary64_def Let_def e_def [symmetric] y_def [symmetric] r_def [symmetric])
  have "0 \<le> r" if "0 \<le> x"
  proof -
    have "0 \<le> y" using that p by (simp add: y_def)
    then have "0 \<le> round_half_even y" by (rule round_half_even_nonneg)
    then show ?thesis by (simp add: r_def)
  qed
  then show ?thesis using b c by blast
qed


lemma tenth_mark_Ints: "tenth_mark x \<Longrightarrow> 10 * x \<in> \<int>"
  by (metis tenth_mark_def Ints_of_int)

lemma js_add_close:
  assumes t: "0 \<le> t" "\<bar>t - s\<bar> \<le> real n / 2 ^ 29" and s: "s \<le> 12000000" and n: "n \<le> 24"
    and x: "tenth_mark x"
  shows "\<exists>t'. js_add (Some t) (binary64 x) = Some t' \<and> 0 \<le> t'
            \<and> \<bar>t' - (s + x)\<bar> \<le> real (n + 2) / 2 ^ 29"
proof -
  have x': "0 \<le> x" "x \<le> 1000000" using x by (simp_all add: tenth_mark_def)
  then have "\<bar>x\<bar> \<le> 2 ^ 24" by simp
  from binary64_close [OF this] x'(1) obtain d
    where d: "binary64 x = Some d" "\<bar>d - x\<bar> \<le> 1 / 2 ^ 29" "0 \<le> d" by blast
  have "real n \<le> 24" using n by simp
  then have "real n / 2 ^ 29 \<le> 1" by simp
  then have "t \<le> s + 1" using t(2) by linarith
  moreover have "(1::real) / 2 ^ 29 \<le> 1" by simp
  then have "d \<le> x + 1" using d(2) by linarith
  ultimately have "\<bar>t + d\<bar> \<le> 2 ^ 24" using t(1) d(3) s x'(2) by simp
  from binary64_close [OF this] t(1) d(3) obtain t'
    where t': "binary64 (t + d) = Some t'" "\<bar>t' - (t + d)\<bar> \<le> 1 / 2 ^ 29" "0 \<le> t'" by auto
  have "\<bar>t' - (s + x)\<bar> \<le> \<bar>t' - (t + d)\<bar> + \<bar>t - s\<bar> + \<bar>d - x\<bar>" by linarith
  also have "\<dots> \<le> 1 / 2 ^ 29 + real n / 2 ^ 29 + 1 / 2 ^ 29"
    using t'(2) t(2) d(2) by linarith
  also have "\<dots> = real (n + 2) / 2 ^ 29" by (simp add: field_simps)
  finally have "\<bar>t' - (s + x)\<bar> \<le> real (n + 2) / 2 ^ 29" .
  moreover have "js_add (Some t) (binary64 x) = Some t'" by (simp add: js_add_def d(1) t'(1))
  ultimately show ?thesis using t'(3) by blast
qed

lemma record_sum_close:
  assumes t: "0 \<le> t" "\<bar>t - s\<bar> \<le> real n / 2 ^ 29" and s: "0 \<le> s" "s \<le> 8000000"
    and n: "n \<le> 16" and f: "tenth_marks f"
  shows "\<exists>t'. js_add (js_add (js_add (js_add (Some t) (binary64 (taskAchievementScore f)))
            (binary64 (pronunciationScore f))) (binary64 (grammarScore f)))
            (binary64 (fluencyCoherenceScore f)) = Some t'
          \<and> 0 \<le> t' \<and> \<bar>t' - (s + pScore f)\<bar> \<le> real (n + 8) / 2 ^ 29"
proof -
  have m: "tenth_mark (taskAchievementScore f)" "tenth_mark (pronunciationScore f)"
    "tenth_mark (grammarScore f)" "tenth_mark (fluencyCoherenceScore f)"
    using f by (simp_all add: tenth_marks_def)
  have b: "0 \<le> taskAchievementScore f" "taskAchievementScore f \<le> 1000000"
          "0 \<le> pronunciationScore f" "pronunciationScore f \<le> 1000000"
          "0 \<le> grammarScore f" "grammarScore f \<le> 1000000"
    using m by (simp_all add: tenth_mark_def)
  have s0: "s \<le> 12000000" using s(2) by simp
  have n0: "n \<le> 24" using n by simp
  from js_add_close [OF t s0 n0 m(1)] obtain t1
    where t1: "js_add (Some t) (binary64 (taskAchievementScore f)) = Some t1" "0 \<le> t1"
      "\<bar>t1 - (s + taskAchievementScore f)\<bar> \<le> real (n + 2) / 2 ^ 29" by blast
  have s1: "s + taskAchievementScore f \<le> 12000000" using s(2) b by simp
  have n1: "n + 2 \<le> 24" using n by simp
  from js_add_close [OF t1(2,3) s1 n1 m(2)] obtain t2
    where t2: "js_add (Some t1) (binary64 (pronunciationScore f)) = Some t2" "0 \<le> t2"
      "\<bar>t2 - (s + taskAchievementScore f + pronunciationScore f)\<bar> \<le> real (n + 2 + 2) / 2 ^ 29"
    by blast
  have s2: "s + taskAchievementScore f + pronunciationScore f \<le> 12000000" using s(2) b by simp
  have n2: "n + 2 + 2 \<le> 24" using n by simp
  from js_add_close [OF t2(2,3) s2 n2 m(3)] obtain t3
    where t3: "js_add (Some t2) (binary64 (grammarScore f)) = Some t3" "0 \<le> t3"
      "\<bar>t3 - (s + taskAchievementScore f + pronunciationScore f + grammarScore f)\<bar>
         \<le> real (n + 2 + 2 + 2) / 2 ^ 29"
    by blast
  have s3: "s + taskAchievementScore f + pronunciationScore f + grammarScore f \<le> 12000000"
    using s(2) b by simp
  have n3: "n + 2 + 2 + 2 \<le> 24" using n by simp
  from js_add_close [OF t3(2,3) s3 n3 m(4)] obtain t4
    where t4: "js_add (Some t3) (binary64 (fluencyCoherenceScore f)) = Some t4" "0 \<le> t4"
      "\<bar>t4 - (s + taskAchievementScore f + pronunciationScore f + grammarScore f
                + fluencyCoherenceScore f)\<bar> \<le> real (n + 2 + 2 + 2 + 2) / 2 ^ 29"
    by blast
  have e: "s + taskAchievementScore f + pronunciationScore f + grammarScore f
                + fluencyCoherenceScore f = s + pScore f"
    by (simp add: pScore_def)
  have k: "n + 2 + 2 + 2 + 2 = n + 8" by simp
  show ?thesis
    unfolding t1(1) t2(1) t3(1) t4(1) using t4(2,3) unfolding e k by blast
qed

lemma tenth_marks_pScore:
  assumes "tenth_marks f"
  shows "10 * pScore f \<in> \<int>" and "0 \<le> pScore f" and "pScore f \<le> 4000000"
proof -
  have m: "tenth_mark (taskAchievementScore f)" "tenth_mark (pronunciationScore f)"
    "tenth_mark (grammarScore f)" "tenth_mark (fluencyCoherenceScore f)"
    using assms by (simp_all add: tenth_marks_def)
  have "10 * pScore f = 10 * taskAchievementScore f + 10 * pronunciationScore f
          + 10 * grammarScore f + 10 * fluencyCoherenceScore f"
    by (simp add: pScore_def)
  then show "10 * pScore f \<in> \<int>"
    using m [THEN tenth_mark_Ints] by (simp only: Ints_add)
  show "0 \<le> pScore f" "pScore f \<le> 4000000"
    using m by (simp_all add: tenth_mark_def pScore_def)
qed

lemma fold_sum_close:
  assumes "\<forall>f \<in> set fs. tenth_marks f" and "0 \<le> t" and "\<bar>t - s\<bar> \<le> real n / 2 ^ 29"
    and "0 \<le> s" and "s + 4000000 * real (length fs) \<le> 12000000"
    and "n + 8 * length fs \<le> 24" and "10 * s \<in> \<int>"
  shows "\<exists>t'. foldl (\<lambda>acc f. js_add (js_add (js_add (js_add acc (binary64 (taskAchievementScore f)))
                        (binary64 (pronunciationScore f))) (binary64 (grammarScore f)))
                        (binary64 (fluencyCoherenceScore f))) (Some t) fs = Some t'
          \<and> 0 \<le> t' \<and> \<bar>t' - (s + sum_list (map pScore fs))\<bar> \<le> 24 / 2 ^ 29
          \<and> 10 * (s + sum_list (map pScore fs)) \<in> \<int>
          \<and> 0 \<le> s + sum_list (map pScore fs)"
  using assms
proof (induction fs arbitrary: t s n)
  case Nil
  have "real n \<le> 24" using Nil.prems(6) by simp
  then have "real n / 2 ^ 29 \<le> 24 / 2 ^ 29" by (simp add: divide_right_mono)
  then show ?case using Nil.prems by simp
next
  case (Cons f fs)
  have f: "tenth_marks f" and fs: "\<forall>f \<in> set fs. tenth_marks f" using Cons.prems(1) by simp_all
  have l: "s + 4000000 + 4000000 * real (length fs) \<le> 12000000"
    using Cons.prems(5) by (simp add: algebra_simps)
  have "0 \<le> 4000000 * real (length fs)" by simp
  then have s8: "s \<le> 8000000" using l by linarith
  have n16: "n \<le> 16" using Cons.prems(6) by simp
  from record_sum_close [OF Cons.prems(2,3,4) s8 n16 f] obtain t1
    where t1: "js_add (js_add (js_add (js_add (Some t) (binary64 (taskAchievementScore f)))
            (binary64 (pronunciationScore f))) (binary64 (grammarScore f)))
            (binary64 (fluencyCoherenceScore f)) = Some t1"
      "0 \<le> t1" "\<bar>t1 - (s + pScore f)\<bar> \<le> real (n + 8) / 2 ^ 29" by blast
  note p = tenth_marks_pScore [OF f]
  have a: "0 \<le> s + pScore f" using Cons.prems(4) p(2) by simp
  have b: "s + pScore f + 4000000 * real (length fs) \<le> 12000000" using l p(3) by linarith
  have c: "n + 8 + 8 * length fs \<le> 24" using Cons.prems(6) by simp
  have d: "10 * (s + pScore f) \<in> \<int>"
    unfolding distrib_left by (rule Ints_add [OF Cons.prems(7) p(1)])
  from Cons.IH [OF fs t1(2,3) a b c d] show ?case
    by (simp add: t1(1) add.assoc)
qed

lemma toFixed_1_near:
  assumes "10 * S \<in> \<int>" and "\<bar>T - S\<bar> < 1 / 20" and "0 \<le> T" and "T < 10 ^ 21"
  shows "toFixed_1 T = S"
proof -
  from assms(1) obtain N where N: "10 * S = of_int N" by (rule Ints_cases)
  have "of_int N \<le> 10 * T + 1 / 2" "10 * T + 1 / 2 < of_int N + 1"
    using assms(2) unfolding N [symmetric] by linarith+
  then have "\<lfloor>10 * T + 1 / 2\<rfloor> = N" by linarith
  then have "of_int \<lfloor>10 * T + 1 / 2\<rfloor> / 10 = (10 * S) / 10" unfolding N by simp
  then show ?thesis using assms(3,4) by (simp add: toFixed_1_def)
qed

lemma exact_total_sum_list: "exact_total h = sum_list (map pScore (Object_values h))"
  by (simp add: exact_total_def Object_values_def List.map_filter_def ExamPart_UNIV
      split: option.splits)

lemma Object_values_length: "real (length (Object_values h)) \<le> 3"
proof -
  have "length (Object_values h) \<le> 3" by (simp add: Object_values_def List.map_filter_def)
  then show ?thesis by simp
qed

lemma Object_values_set: "f \<in> set (Object_values h) \<Longrightarrow> \<exists>p. h p = Some f"
  by (auto simp: Object_values_def List.map_filter_def split: if_splits)

text \<open>
  Claim C3, as amended. When every sub-score in the results history is a multiple of 0.1
  between 0 and 1000000, the aggregate score displayed in the final report is the exact
  sum of the four sub-scores over the parts that have a record. When every sub-score is
  a multiple of 0.5 in that range, the number \<open>calculateTotalScore\<close> returns is that
  sum itself.
\<close>

theorem C3_total_score_as_displayed:
  "((\<forall>p f. h p = Some f \<longrightarrow> tenth_marks f) \<longrightarrow>
      map_option toFixed_1 (calculateTotalScore h) = Some (exact_total h))
   \<and> ((\<forall>p f. h p = Some f \<longrightarrow> half_marks f) \<longrightarrow>
      calculateTotalScore h = Some (exact_total h))"
proof (intro conjI impI)
  assume a: "\<forall>p f. h p = Some f \<longrightarrow> tenth_marks f"
  have g: "\<forall>f \<in> set (Object_values h). tenth_marks f"
    using a Object_values_set by blast
  have l: "0 + 4000000 * real (length (Object_values h)) \<le> 12000000"
    using Object_values_length [of h] by simp
  have "length (Object_values h) \<le> 3"
    using Object_values_length [of h] by simp
  then have n: "0 + 8 * length (Object_values h) \<le> 24" by simp
  have z: "(0::real) \<le> 0" "\<bar>(0::real) - 0\<bar> \<le> real 0 / 2 ^ 29" "10 * (0::real) \<in> \<int>"
    by simp_all
  from fold_sum_close [OF g z(1,2) z(1) l n z(3)] obtain T
    where T: "calculateTotalScore h = Some T" "0 \<le> T"
      "\<bar>T - exact_total h\<bar> \<le> 24 / 2 ^ 29" "10 * exact_total h \<in> \<int>" "0 \<le> exact_total h"
    unfolding calculateTotalScore_def exact_total_sum_list by auto
  have "exact_total h \<le> 4000000 * real (length (Object_values h))"
  proof -
    have "sum_list (map pScore fs) \<le> 4000000 * real (length fs)"
      if "\<forall>f \<in> set fs. tenth_marks f" for fs
      using that
    proof (induction fs)
      case Nil
      show ?case by simp
    next
      case (Cons f fs)
      then have "pScore f \<le> 4000000" "sum_list (map pScore fs) \<le> 4000000 * real (length fs)"
        using tenth_marks_pScore(3) by simp_all
      then show ?case by (simp add: algebra_simps)
    qed
    from this [OF g] show ?thesis by (simp add: exact_total_sum_list)
  qed
  then have "exact_total h \<le> 12000000" using l by linarith
  moreover have "(24::real) / 2 ^ 29 < 1 / 20" by simp
  ultimately have c: "\<bar>T - exact_total h\<bar> < 1 / 20" "T < 12000001" using T(3) by linarith+
  then have "T < 10 ^ 21" by simp
  with c(1) have "toFixed_1 T = exact_total h"
    using T(2,4) by (intro toFixed_1_near)
  then show "map_option toFixed_1 (calculateTotalScore h) = Some (exact_total h)"
    by (simp add: T(1))
next
  assume a: "\<forall>p f. h p = Some f \<longrightarrow> half_marks f"
  have g: "\<forall>f \<in> set (Object_values h). half_marks f"
    using a Object_values_set by blast
  have "(2::real) ^ 42 * real (length (Object_values h)) \<le> 2 ^ 42 * 3"
    by (rule mult_left_mono [OF Object_values_length]) simp
  then have b: "0 + (2::real) ^ 42 * real (length (Object_values h)) \<le> 2 ^ 49" by simp
  have z: "2 * (0::real) \<in> \<int>" "(0::real) \<le> 0" by simp_all
  from fold_sum_exact [OF g z b] show "calculateTotalScore h = Some (exact_total h)"
    by (simp add: calculateTotalScore_def exact_total_sum_list)
qed

theorem C3_total_score_witness:
  "tenth_marks (scores 4 4 4 4) \<and> tenth_marks (scores 8 7 9 8) \<and> tenth_marks (scores 9 8 7 9)
   \<and> half_marks (scores 4 4 4 4) \<and> half_marks (scores 8 7 9 8) \<and> half_marks (scores 9 8 7 9)
   \<and> calculateTotalScore
       [INTRO \<mapsto> scores 4 4 4 4, PICTURE \<mapsto> scores 8 7 9 8, DISCUSSION \<mapsto> scores 9 8 7 9]
     = Some 81
   \<and> map_option toFixed_1 (calculateTotalScore
       [INTRO \<mapsto> scores 4 4 4 4, PICTURE \<mapsto> scores 8 7 9 8, DISCUSSION \<mapsto> scores 9 8 7 9])
     = Some 81
   \<and> tenth_marks (scores 0.1 0.2 0.3 0)
   \<and> map_option toFixed_1 (calculateTotalScore [INTRO \<mapsto> scores 0.1 0.2 0.3 0]) = Some 0.6"
proof -
  define h where
    "h = [INTRO \<mapsto> scores 4 4 4 4, PICTURE \<mapsto> scores 8 7 9 8, DISCUSSION \<mapsto> scores 9 8 7 9]"
  define k where "k = [INTRO \<mapsto> scores 0.1 0.2 0.3 0]"
  have m: "tenth_marks (scores 4 4 4 4)" "tenth_marks (scores 8 7 9 8)"
          "tenth_marks (scores 9 8 7 9)" "tenth_marks (scores 0.1 0.2 0.3 0)"
    by (simp_all add: tenth_marks_def tenth_mark_def scores_def)
  have m': "half_marks (scores 4 4 4 4)" "half_marks (scores 8 7 9 8)"
          "half_marks (scores 9 8 7 9)"
    by (simp_all add: half_marks_def half_mark_def scores_def)
  have a: "\<forall>p f. h p = Some f \<longrightarrow> tenth_marks f"
  proof (intro allI impI)
    fix p f assume "h p = Some f"
    then show "tenth_marks f" using m by (cases p) (simp_all add: h_def)
  qed
  have a': "\<forall>p f. h p = Some f \<longrightarrow> half_marks f"
  proof (intro allI impI)
    fix p f assume "h p = Some f"
    then show "half_marks f" using m' by (cases p) (simp_all add: h_def)
  qed
  have b: "\<forall>p f. k p = Some f \<longrightarrow> tenth_marks f"
  proof (intro allI impI)
    fix p f assume "k p = Some f"
    then show "tenth_marks f" using m by (cases p) (simp_all add: k_def)
  qed
  have s: "exact_total h = 81" "exact_total k = 0.6"
    by (simp_all add: exact_total_def ExamPart_UNIV h_def k_def scores_def pScore_def)
  have "map_option toFixed_1 (calculateTotalScore h) = Some 81"
    using C3_total_score_as_displayed [of h] a unfolding s by blast
  moreover have "calculateTotalScore h = Some 81"
    using C3_total_score_as_displayed [of h] a' unfolding s by blast
  moreover have "map_option toFixed_1 (calculateTotalScore k) = Some 0.6"
    using C3_total_score_as_displayed [of k] b unfolding s by blast
  ultimately show ?thesis using m m' unfolding h_def k_def by blast
qed

text \<open>
  The doubles that 0.1, 0.2 and 0.3 denote, and their sums as the code computes them: the
  second and the third addition fall half way between two doubles and are rounded to
  the even one.
\<close>

lemma binary64_small:
  assumes "2 powi E \<le> \<bar>x\<bar>" and "\<bar>x\<bar> < 2 powi (E + 1)" and "- 1022 \<le> E"
    and "round_half_even (x / 2 powi (E - 52)) = n"
    and "\<bar>of_int n * 2 powi (E - 52)\<bar> \<le> (1::real)"
  shows "binary64 x = Some (of_int n * 2 powi (E - 52))"
proof -
  have "(1::real) < 2 ^ 1024" by (rule one_less_power) simp_all
  then have "\<bar>of_int n * 2 powi (E - 52)\<bar> < (2::real) ^ 1024" using assms(5) by linarith
  then show ?thesis
    by (rule binary64_eqI [OF ulp_exponent_eq [OF assms(1-3)] assms(4)])
qed

lemma binary64_tenth: "binary64 0.1 = Some (3602879701896397 / 2 ^ 55)"
proof -
  have "round_half_even (0.1 / 2 powi (- 4 - 52)) = 7205759403792794"
    by (rule round_half_even_near) simp_all
  then have "binary64 0.1 = Some (of_int 7205759403792794 * 2 powi (- 4 - 52))"
    by (intro binary64_small) simp_all
  then show ?thesis by simp
qed

lemma binary64_fifth: "binary64 0.2 = Some (3602879701896397 / 2 ^ 54)"
proof -
  have "round_half_even (0.2 / 2 powi (- 3 - 52)) = 7205759403792794"
    by (rule round_half_even_near) simp_all
  then have "binary64 0.2 = Some (of_int 7205759403792794 * 2 powi (- 3 - 52))"
    by (intro binary64_small) simp_all
  then show ?thesis by simp
qed

lemma binary64_three_tenths: "binary64 0.3 = Some (5404319552844595 / 2 ^ 54)"
proof -
  have "round_half_even (0.3 / 2 powi (- 2 - 52)) = 5404319552844595"
    by (rule round_half_even_near) simp_all
  then have "binary64 0.3 = Some (of_int 5404319552844595 * 2 powi (- 2 - 52))"
    by (intro binary64_small) simp_all
  then show ?thesis by simp
qed

lemma binary64_zero: "binary64 0 = Some 0"
  by (rule binary64_half) simp_all

lemma js_add_first: "js_add (Some 0) (Some (3602879701896397 / 2 ^ 55)) = Some (3602879701896397 / 2 ^ 55)"
proof -
  have "binary64 (of_int 3602879701896397 * 2 powi (- 55))
          = Some (of_int 3602879701896397 * 2 powi (- 55))"
    by (rule binary64_dyadic) simp_all
  then show ?thesis by (simp add: js_add_def)
qed

lemma js_add_second:
  "js_add (Some (3602879701896397 / 2 ^ 55)) (Some (3602879701896397 / 2 ^ 54))
     = Some (5404319552844596 / 2 ^ 54)"
proof -
  define x :: real where "x = 3602879701896397 / 2 ^ 55 + 3602879701896397 / 2 ^ 54"
  have "x / 2 powi (- 2 - 52) = of_int 5404319552844595 + 1 / 2" by (simp add: x_def)
  then have "round_half_even (x / 2 powi (- 2 - 52))
               = (if even (5404319552844595::int) then 5404319552844595 else 5404319552844595 + 1)"
    by (rule round_half_even_tie)
  then have "round_half_even (x / 2 powi (- 2 - 52)) = 5404319552844596" by simp
  then have "binary64 x = Some (of_int 5404319552844596 * 2 powi (- 2 - 52))"
    by (intro binary64_small) (simp_all add: x_def)
  then show ?thesis by (simp add: js_add_def x_def)
qed

lemma js_add_third:
  "js_add (Some (5404319552844596 / 2 ^ 54)) (Some (5404319552844595 / 2 ^ 54))
     = Some (5404319552844596 / 2 ^ 53)"
proof -
  define x :: real where "x = 5404319552844596 / 2 ^ 54 + 5404319552844595 / 2 ^ 54"
  have "x / 2 powi (- 1 - 52) = of_int 5404319552844595 + 1 / 2" by (simp add: x_def)
  then have "round_half_even (x / 2 powi (- 1 - 52))
               = (if even (5404319552844595::int) then 5404319552844595 else 5404319552844595 + 1)"
    by (rule round_half_even_tie)
  then have "round_half_even (x / 2 powi (- 1 - 52)) = 5404319552844596" by simp
  then have "binary64 x = Some (of_int 5404319552844596 * 2 powi (- 1 - 52))"
    by (intro binary64_small) (simp_all add: x_def)
  then show ?thesis by (simp add: js_add_def x_def)
qed

lemma js_add_fourth:
  "js_add (Some (5404319552844596 / 2 ^ 53)) (Some 0) = Some (5404319552844596 / 2 ^ 53)"
proof -
  have "binary64 (of_int 5404319552844596 * 2 powi (- 53))
          = Some (of_int 5404319552844596 * 2 powi (- 53))"
    by (rule binary64_dyadic) simp_all
  then show ?thesis by (simp add: js_add_def)
qed

lemma binary64_quarter: "binary64 0.25 = Some 0.25"
proof -
  have "binary64 (of_int 1 * 2 powi (- 2)) = Some (of_int 1 * 2 powi (- 2))"
    by (rule binary64_dyadic) simp_all
  then show ?thesis by simp
qed

text \<open>
  The claim as stated fails. For the single sub-score 0.25 the report displays 0.3. For
  the sub-scores 0.1, 0.2, 0.3 and 0 the number computed is 0.6000000000000001
  (\<open>5404319552844596 / 2^53\<close>), which is neither the sum of the decimals nor the sum
  of the doubles they denote (the report displays it as 0.6).
\<close>

theorem C3_rounded_sum_counterexample:
  "calculateTotalScore [INTRO \<mapsto> scores 0.1 0.2 0.3 0] = Some (5404319552844596 / 2 ^ 53)
   \<and> (5404319552844596 / 2 ^ 53 :: real) \<noteq> 0.1 + 0.2 + 0.3 + 0
   \<and> binary64 0.1 = Some (3602879701896397 / 2 ^ 55)
   \<and> binary64 0.2 = Some (3602879701896397 / 2 ^ 54)
   \<and> binary64 0.3 = Some (5404319552844595 / 2 ^ 54)
   \<and> (5404319552844596 / 2 ^ 53 :: real)
        \<noteq> 3602879701896397 / 2 ^ 55 + 3602879701896397 / 2 ^ 54 + 5404319552844595 / 2 ^ 54 + 0
   \<and> calculateTotalScore [INTRO \<mapsto> scores 0.25 0 0 0] = Some 0.25
   \<and> map_option toFixed_1 (calculateTotalScore [INTRO \<mapsto> scores 0.25 0 0 0]) = Some 0.3"
proof -
  define f where "f = scores 0.1 0.2 0.3 0"
  define g where "g = scores 0.25 0 0 0"
  have unfold: "calculateTotalScore [INTRO \<mapsto> r] =
      js_add (js_add (js_add (js_add (Some 0) (binary64 (taskAchievementScore r)))
        (binary64 (pronunciationScore r))) (binary64 (grammarScore r)))
        (binary64 (fluencyCoherenceScore r))" for r
    by (simp add: calculateTotalScore_def Object_values_def List.map_filter_def)
  have f: "taskAchievementScore f = 0.1" "pronunciationScore f = 0.2" "grammarScore f = 0.3"
          "fluencyCoherenceScore f = 0"
    by (simp_all add: f_def scores_def)
  have g: "taskAchievementScore g = 0.25" "pronunciationScore g = 0" "grammarScore g = 0"
          "fluencyCoherenceScore g = 0"
    by (simp_all add: g_def scores_def)
  have a: "calculateTotalScore [INTRO \<mapsto> f] = Some (5404319552844596 / 2 ^ 53)"
    unfolding unfold f binary64_tenth binary64_fifth binary64_three_tenths binary64_zero
      js_add_first js_add_second js_add_third js_add_fourth ..
  have q: "js_add (Some 0) (Some 0.25) = Some 0.25" "js_add (Some 0.25) (Some 0) = Some 0.25"
    using binary64_quarter by (simp_all add: js_add_def)
  have b: "calculateTotalScore [INTRO \<mapsto> g] = Some 0.25"
    unfolding unfold g binary64_quarter binary64_zero q ..
  have c: "map_option toFixed_1 (Some 0.25) = Some 0.3" by (simp add: toFixed_1_def)
  have d: "(5404319552844596 / 2 ^ 53 :: real) \<noteq> 0.1 + 0.2 + 0.3 + 0"
    "(5404319552844596 / 2 ^ 53 :: real)
        \<noteq> 3602879701896397 / 2 ^ 55 + 3602879701896397 / 2 ^ 54 + 5404319552844595 / 2 ^ 54 + 0"
    by simp_all
  show ?thesis
    unfolding f_def [symmetric] g_def [symmetric] a b c
    using binary64_tenth binary64_fifth binary64_three_tenths d by blast
qed

section \<open>The retry helper (geminiService.ts)\<close>

text \<open>
  A value caught by \<open>catch (error: any)\<close>: the fields that \<open>isQuotaError\<close> reads.
  \<open>err_message\<close> is \<open>error?.message\<close> (absent when the value has none),
  \<open>err_status\<close> is \<open>error?.status\<close> when it is a number, and \<open>err_string\<close>
  is the text \<open>JSON.stringify(error) || String(error)\<close>, which the library computes
  from the value and which is taken here as given with it.
\<close>

record js_error =
  err_message :: "string option"
  err_status :: "int option"
  err_string :: string

text \<open>\<open>String.prototype.includes\<close>: the argument occurs somewhere in the string.\<close>

fun String_includes :: "string \<Rightarrow> string \<Rightarrow> bool" where
  "String_includes [] sub = (sub = [])"
| "String_includes (c # cs) sub = (take (length sub) (c # cs) = sub \<or> String_includes cs sub)"

text \<open>\<open>toLowerCase\<close> on the ASCII letters (a \<open>char\<close> is one byte).\<close>

definition toLowerCase_char :: "char \<Rightarrow> char" where
  "toLowerCase_char c =
     (let n = (of_char c :: nat) in if 65 \<le> n \<and> n \<le> 90 then char_of (n + 32) else c)"

definition toLowerCase :: "string \<Rightarrow> string" where
  "toLowerCase s = map toLowerCase_char s"

definition isQuotaError :: "js_error \<Rightarrow> bool" where
  "isQuotaError error =
     (let errorString = err_string error in
        (case err_message error of None \<Rightarrow> False | Some m \<Rightarrow> String_includes m ''429'')
        \<or> err_status error = Some 429
        \<or> String_includes errorString ''429''
        \<or> String_includes errorString ''RESOURCE_EXHAUSTED''
        \<or> String_includes (toLowerCase errorString) ''quota'')"

text \<open>
  \<open>fetchWithRetry(fn, retries = 5, delay = 2000)\<close>. The thunk \<open>fn\<close> is called again
  on every attempt and may settle differently each time: \<open>fn k\<close> is the way its
  invocation number \<open>k\<close> (counted from 0 over the whole run) settles, \<open>Inl\<close> a
  rejection and \<open>Inr\<close> a value. The run returns how the promise settles, the number of
  invocations of \<open>fn\<close> made so far, and the delays passed to \<open>setTimeout\<close>, in order.
  The recursion is on \<open>retries\<close>, which decreases while it is positive.
\<close>

record 'a retry_run =
  outcome :: "js_error + 'a"
  calls :: nat
  sleeps :: "int list"

function fetchWithRetry ::
  "(nat \<Rightarrow> js_error + 'a) \<Rightarrow> int \<Rightarrow> int \<Rightarrow> nat \<Rightarrow> 'a retry_run" where
  "fetchWithRetry fn retries delay k =
     (case fn k of
        Inr v \<Rightarrow> \<lparr> outcome = Inr v, calls = Suc k, sleeps = [] \<rparr>
      | Inl error \<Rightarrow>
          if retries > 0 \<and> isQuotaError error
          then (let r = fetchWithRetry fn (retries - 1) (delay * 2) (Suc k)
                in r\<lparr> sleeps := delay # sleeps r \<rparr>)
          else \<lparr> outcome = Inl error, calls = Suc k, sleeps = [] \<rparr>)"
  by pat_completeness auto
termination
  by (relation "measure (\<lambda>(fn, retries, delay, k). nat retries)") auto

declare fetchWithRetry.simps [simp del]

text \<open>Two sample errors: a rate-limit response and a network failure.\<close>

definition quota_429 :: js_error where
  "quota_429 = \<lparr> err_message = Some ''got status: 429 Too Many Requests'',
                  err_status = Some 429, err_string = ''{\"status\":429}'' \<rparr>"

definition network_down :: js_error where
  "network_down = \<lparr> err_message = Some ''Failed to fetch'',
                  err_status = None, err_string = ''{}'' \<rparr>"


lemma fetchWithRetry_Inr:
  "fn k = Inr v \<Longrightarrow>
   fetchWithRetry fn retries delay k = \<lparr> outcome = Inr v, calls = Suc k, sleeps = [] \<rparr>"
  by (simp add: fetchWithRetry.simps [of fn retries delay k])

lemma fetchWithRetry_throw:
  "fn k = Inl e \<Longrightarrow> \<not> (retries > 0 \<and> isQuotaError e) \<Longrightarrow>
   fetchWithRetry fn retries delay k = \<lparr> outcome = Inl e, calls = Suc k, sleeps = [] \<rparr>"
  by (auto simp add: fetchWithRetry.simps [of fn retries delay k])

lemma fetchWithRetry_retry:
  "fn k = Inl e \<Longrightarrow> retries > 0 \<Longrightarrow> isQuotaError e \<Longrightarrow>
   fetchWithRetry fn retries delay k =
     (fetchWithRetry fn (retries - 1) (delay * 2) (Suc k))
       \<lparr> sleeps := delay # sleeps (fetchWithRetry fn (retries - 1) (delay * 2) (Suc k)) \<rparr>"
  by (simp add: fetchWithRetry.simps [of fn retries delay k] Let_def)

lemma fetchWithRetry_cases:
  obtains (ok) v where "fn k = Inr v"
  | (throw) e where "fn k = Inl e" "\<not> (retries > 0 \<and> isQuotaError e)"
  | (retry) e where "fn k = Inl e" "retries > 0" "isQuotaError e"
  by (cases "fn k") auto

lemma calls_lower: "k < calls (fetchWithRetry fn retries delay k)"
proof (induction fn retries delay k rule: fetchWithRetry.induct)
  case (1 fn retries delay k)
  show ?case
  proof (cases rule: fetchWithRetry_cases [where fn = fn and k = k and retries = retries])
    case (ok v) then show ?thesis by (simp add: fetchWithRetry_Inr)
  next
    case (throw e) then show ?thesis by (simp add: fetchWithRetry_throw)
  next
    case (retry e)
    have "Suc k < calls (fetchWithRetry fn (retries - 1) (delay * 2) (Suc k))"
      using "1.IH" retry by simp
    then show ?thesis using retry by (simp add: fetchWithRetry_retry)
  qed
qed

lemma calls_upper:
  "0 \<le> retries \<Longrightarrow> int (calls (fetchWithRetry fn retries delay k)) \<le> int k + 1 + retries"
proof (induction fn retries delay k rule: fetchWithRetry.induct)
  case (1 fn retries delay k)
  show ?case
  proof (cases rule: fetchWithRetry_cases [where fn = fn and k = k and retries = retries])
    case (ok v) then show ?thesis using "1.prems" by (simp add: fetchWithRetry_Inr)
  next
    case (throw e) then show ?thesis using "1.prems" by (simp add: fetchWithRetry_throw)
  next
    case (retry e)
    have "int (calls (fetchWithRetry fn (retries - 1) (delay * 2) (Suc k)))
            \<le> int (Suc k) + 1 + (retries - 1)"
      using "1.IH" retry by simp
    then show ?thesis using retry by (simp add: fetchWithRetry_retry)
  qed
qed

lemma sleeps_doubling:
  "sleeps (fetchWithRetry fn retries delay k) =
     map (\<lambda>i. delay * 2 ^ i) [0..<calls (fetchWithRetry fn retries delay k) - Suc k]"
proof (induction fn retries delay k rule: fetchWithRetry.induct)
  case (1 fn retries delay k)
  show ?case
  proof (cases rule: fetchWithRetry_cases [where fn = fn and k = k and retries = retries])
    case (ok v) then show ?thesis by (simp add: fetchWithRetry_Inr)
  next
    case (throw e) then show ?thesis by (simp add: fetchWithRetry_throw)
  next
    case (retry e)
    define r where "r = fetchWithRetry fn (retries - 1) (delay * 2) (Suc k)"
    define n where "n = calls r - Suc (Suc k)"
    have IH: "sleeps r = map (\<lambda>i. (delay * 2) * 2 ^ i) [0..<n]"
      using "1.IH" retry unfolding r_def n_def by simp
    have "Suc k < calls r" unfolding r_def by (rule calls_lower)
    then have c: "calls r - Suc k = Suc n" unfolding n_def by simp
    have m: "map (\<lambda>i. delay * 2 ^ i) [0..<Suc n] = delay # map (\<lambda>i. (delay * 2) * 2 ^ i) [0..<n]"
      by (simp add: upt_conv_Cons map_Suc_upt [symmetric] del: upt_Suc)
    have "fetchWithRetry fn retries delay k = r\<lparr> sleeps := delay # sleeps r \<rparr>"
      using retry unfolding r_def by (simp add: fetchWithRetry_retry)
    then show ?thesis by (simp add: m c IH del: upt_Suc)
  qed
qed

lemma outcome_last:
  "outcome (fetchWithRetry fn retries delay k) = fn (calls (fetchWithRetry fn retries delay k) - 1)"
proof (induction fn retries delay k rule: fetchWithRetry.induct)
  case (1 fn retries delay k)
  show ?case
  proof (cases rule: fetchWithRetry_cases [where fn = fn and k = k and retries = retries])
    case (ok v) then show ?thesis by (simp add: fetchWithRetry_Inr)
  next
    case (throw e) then show ?thesis by (simp add: fetchWithRetry_throw)
  next
    case (retry e)
    then show ?thesis using "1.IH" by (simp add: fetchWithRetry_retry)
  qed
qed

lemma earlier_calls_quota:
  "k \<le> i \<Longrightarrow> i < calls (fetchWithRetry fn retries delay k) - 1 \<Longrightarrow>
     \<exists>e. fn i = Inl e \<and> isQuotaError e"
proof (induction fn retries delay k rule: fetchWithRetry.induct)
  case (1 fn retries delay k)
  show ?case
  proof (cases rule: fetchWithRetry_cases [where fn = fn and k = k and retries = retries])
    case (ok v) then show ?thesis using "1.prems" by (simp add: fetchWithRetry_Inr)
  next
    case (throw e) then show ?thesis using "1.prems" by (simp add: fetchWithRetry_throw)
  next
    case (retry e)
    show ?thesis
    proof (cases "i = k")
      case True then show ?thesis using retry by simp
    next
      case False
      then have "Suc k \<le> i" using "1.prems" by simp
      moreover have "i < calls (fetchWithRetry fn (retries - 1) (delay * 2) (Suc k)) - 1"
        using "1.prems" retry by (simp add: fetchWithRetry_retry)
      ultimately show ?thesis using "1.IH" retry by simp
    qed
  qed
qed

lemma quota_exhausts:
  "0 \<le> retries \<Longrightarrow> outcome (fetchWithRetry fn retries delay k) = Inl e \<Longrightarrow> isQuotaError e \<Longrightarrow>
     int (calls (fetchWithRetry fn retries delay k)) = int k + 1 + retries"
proof (induction fn retries delay k rule: fetchWithRetry.induct)
  case (1 fn retries delay k)
  show ?case
  proof (cases rule: fetchWithRetry_cases [where fn = fn and k = k and retries = retries])
    case (ok v) then show ?thesis using "1.prems" by (simp add: fetchWithRetry_Inr)
  next
    case (throw e') then show ?thesis using "1.prems" by (auto simp add: fetchWithRetry_throw)
  next
    case (retry e')
    have "int (calls (fetchWithRetry fn (retries - 1) (delay * 2) (Suc k)))
            = int (Suc k) + 1 + (retries - 1)"
      using "1.IH" [OF retry(1)] retry "1.prems" by (simp add: fetchWithRetry_retry)
    then show ?thesis using retry by (simp add: fetchWithRetry_retry)
  qed
qed

lemma doubling_take:
  "m \<le> 5 \<Longrightarrow>
     map (\<lambda>i. 2000 * 2 ^ i) [0..<m] = take m [2000, 4000, 8000, 16000, 32000::int]"
proof -
  assume "m \<le> 5"
  then have "m = 0 \<or> m = 1 \<or> m = 2 \<or> m = 3 \<or> m = 4 \<or> m = 5" by linarith
  then show ?thesis by (auto simp: upt_conv_Cons)
qed

text \<open>
  Claim C9. A call wrapped by the retry helper with its default arguments (every call in
  the service uses them) invokes the thunk \<open>n + 1\<close> times with \<open>n \<le> 5\<close> retries;
  the delays before the retries are 2000, 4000, 8000, 16000, 32000 ms, each the double of
  the one before; the helper settles the way the last invocation did (the value is
  returned, the error is thrown on); every invocation before the last one failed with an
  error classified as a quota error, so a failure that is not a quota error is never
  followed by a retry; and a quota error is thrown on only after all 5 retries are used.
\<close>

theorem C9_fetchWithRetry_bounded_backoff:
  "let r = fetchWithRetry fn 5 2000 0; n = calls r - 1 in
      calls r = n + 1
    \<and> n \<le> 5
    \<and> sleeps r = take n [2000, 4000, 8000, 16000, 32000]
    \<and> outcome r = fn n
    \<and> (\<forall>i<n. \<exists>e. fn i = Inl e \<and> isQuotaError e)
    \<and> (\<forall>e. outcome r = Inl e \<and> isQuotaError e \<longrightarrow> n = 5)"
proof -
  define r where "r = fetchWithRetry fn 5 2000 0"
  define n where "n = calls r - 1"
  have pos: "0 < calls r" unfolding r_def by (rule calls_lower)
  have "int (calls r) \<le> int 0 + 1 + 5" unfolding r_def by (rule calls_upper) simp
  then have le: "n \<le> 5" unfolding n_def by simp
  have c: "calls r = n + 1" using pos unfolding n_def by simp
  have "sleeps r = map (\<lambda>i. 2000 * 2 ^ i) [0..<calls r - Suc 0]"
    unfolding r_def by (rule sleeps_doubling)
  then have s: "sleeps r = take n [2000, 4000, 8000, 16000, 32000]"
    using doubling_take [OF le] unfolding n_def by simp
  have o: "outcome r = fn n" unfolding r_def n_def by (rule outcome_last)
  have q: "\<forall>i<n. \<exists>e. fn i = Inl e \<and> isQuotaError e"
    unfolding r_def n_def using earlier_calls_quota [of 0 _ fn 5 2000] by simp
  have x: "\<forall>e. outcome r = Inl e \<and> isQuotaError e \<longrightarrow> n = 5"
  proof (intro allI impI)
    fix e assume "outcome r = Inl e \<and> isQuotaError e"
    then have "int (calls r) = int 0 + 1 + 5"
      unfolding r_def using quota_exhausts [of 5 fn 2000 0 e] by simp
    then show "n = 5" unfolding n_def by simp
  qed
  show ?thesis
    unfolding Let_def r_def [symmetric] n_def [symmetric]
    using c le s o q x by (intro conjI)
qed

lemma isQuotaError_quota_429: "isQuotaError quota_429"
  by (simp add: isQuotaError_def quota_429_def)

theorem C9_fetchWithRetry_witness:
  "let r = fetchWithRetry (\<lambda>k. Inl quota_429 :: js_error + nat) 5 2000 0 in
     outcome r = Inl quota_429 \<and> isQuotaError quota_429 \<and> calls r = 6
     \<and> sleeps r = [2000, 4000, 8000, 16000, 32000]"
proof -
  define r where "r = fetchWithRetry (\<lambda>k. Inl quota_429 :: js_error + nat) 5 2000 0"
  define n where "n = calls r - 1"
  have t: "calls r = n + 1 \<and> n \<le> 5
    \<and> sleeps r = take n [2000, 4000, 8000, 16000, 32000]
    \<and> outcome r = Inl quota_429
    \<and> (\<forall>i<n. \<exists>e. (Inl quota_429 :: js_error + nat) = Inl e \<and> isQuotaError e)
    \<and> (\<forall>e. outcome r = Inl e \<and> isQuotaError e \<longrightarrow> n = 5)"
    using C9_fetchWithRetry_bounded_backoff [of "\<lambda>k. Inl quota_429 :: js_error + nat"]
    unfolding Let_def r_def [symmetric] n_def [symmetric] .
  have o: "outcome r = Inl quota_429" using t by (elim conjE)
  have x: "\<forall>e. outcome r = Inl e \<and> isQuotaError e \<longrightarrow> n = 5" using t by (elim conjE)
  have n5: "n = 5" using x o isQuotaError_quota_429 by blast
  have "calls r = n + 1" using t by (elim conjE)
  then have c: "calls r = 6" unfolding n5 by simp
  have "sleeps r = take n [2000, 4000, 8000, 16000, 32000]" using t by (elim conjE)
  then have s: "sleeps r = [2000, 4000, 8000, 16000, 32000]" unfolding n5 by simp
  show ?thesis unfolding Let_def r_def [symmetric]
    using o c s isQuotaError_quota_429 by (intro conjI)
qed


section \<open>The exam-mode reply of processStudentInput (geminiService.ts)\<close>

text \<open>
  The reply of the model is parsed by \<open>JSON.parse\<close> into a value of type
  \<open>any\<close>; the code from there on is untyped. \<open>json\<close> is what \<open>JSON.parse\<close>
  returns: an object is the list of its own properties, each key once (of two entries
  with one key, the reads below take the first), and its prototype is
  \<open>Object.prototype\<close>. A property named \<open>__proto__\<close> is an own property like any
  other there.
\<close>

datatype json =
    PNull | PBool bool | PNum real | PStr string
  | PArr "json list" | PObj "(string \<times> json) list"

text \<open>
  The values the code computes with. \<open>JUndefined\<close> is what reading a missing property
  gives. An object has its own properties and a prototype: \<open>None\<close> is
  \<open>Object.prototype\<close>, \<open>Some JNull\<close> is no prototype, \<open>Some v\<close> the object or
  array \<open>v\<close>.
\<close>

datatype jsval =
    JUndefined | JNull | JBool bool | JNum real | JStr string
  | JArr "jsval list" | JObj "(string \<times> jsval) list" "jsval option"

text \<open>Truthiness, and \<open>a || b\<close>: the left operand when it is truthy, else the right one.\<close>

fun truthy :: "jsval \<Rightarrow> bool" where
  "truthy JUndefined = False"
| "truthy JNull = False"
| "truthy (JBool b) = b"
| "truthy (JNum x) = (x \<noteq> 0)"
| "truthy (JStr s) = (s \<noteq> [])"
| "truthy (JArr xs) = True"
| "truthy (JObj ps proto) = True"

definition js_or :: "jsval \<Rightarrow> jsval \<Rightarrow> jsval" where
  "js_or a b = (if truthy a then a else b)"

text \<open>
  Reading a named property \<open>obj.key\<close> of a value that is neither \<open>null\<close> nor
  \<open>undefined\<close>: the own property of an object, else the property of its prototype,
  along the chain; \<open>undefined\<close> when the chain ends. None of the names read below is
  a property of \<open>Object.prototype\<close>, of an array, or of a string, number or boolean.
\<close>

fun js_get :: "jsval \<Rightarrow> string \<Rightarrow> jsval" where
  "js_get (JObj ps proto) key =
     (case map_of ps key of
        Some v \<Rightarrow> v
      | None \<Rightarrow> (case proto of Some p \<Rightarrow> js_get p key | None \<Rightarrow> JUndefined))"
| "js_get v key = JUndefined"

text \<open>
  The local function \<open>clean\<close>: stars are removed from every string of the value, and
  an object is rebuilt by \<open>newObj[key] = clean(obj[key])\<close> for each of its keys. The
  assignment creates an own property, except for the key \<open>__proto__\<close>: there it calls
  the setter inherited from \<open>Object.prototype\<close>, which makes the value the prototype
  of \<open>newObj\<close> when it is an object, an array or \<open>null\<close>, and does nothing
  otherwise.
\<close>

fun is_object :: "jsval \<Rightarrow> bool" where
  "is_object (JObj ps proto) = True"
| "is_object (JArr xs) = True"
| "is_object v = False"

fun clean :: "json \<Rightarrow> jsval" where
  "clean (PStr s) = JStr (filter (\<lambda>c. c \<noteq> CHR ''*'') s)"
| "clean (PArr xs) = JArr (map clean xs)"
| "clean (PObj kvs) =
     (let ps = map (\<lambda>(key, v). (key, clean v)) kvs
      in JObj (filter (\<lambda>(key, v). key \<noteq> ''__proto__'') ps)
              (case map_of ps ''__proto__'' of
                 Some v \<Rightarrow> if is_object v \<or> v = JNull then Some v else None
               | None \<Rightarrow> None))"
| "clean PNull = JNull"
| "clean (PBool b) = JBool b"
| "clean (PNum x) = JNum x"

text \<open>
  The end of \<open>processStudentInput\<close> in mode \<open>'EXAM'\<close>, from the parsed reply
  \<open>json\<close> to the object returned. Reading \<open>cleanedJson.replyText\<close> throws a
  TypeError when the reply is \<open>null\<close>.
\<close>

datatype js_exception = TypeError

definition processStudentInput_EXAM :: "json \<Rightarrow> js_exception + jsval" where
  "processStudentInput_EXAM json =
     (let cleanedJson = clean json in
      if cleanedJson = JNull then Inl TypeError
      else Inr (JObj
        [(''reply'', js_get cleanedJson ''replyText''),
         (''moveNext'', js_get cleanedJson ''examMoveToNext''),
         (''feedback'', JObj
            [(''taskAchievementScore'', js_or (js_get cleanedJson ''taskAchievementScore'') (JNum 0)),
             (''pronunciationScore'', js_or (js_get cleanedJson ''pronunciationScore'') (JNum 0)),
             (''grammarScore'', js_or (js_get cleanedJson ''grammarScore'') (JNum 0)),
             (''fluencyCoherenceScore'', js_or (js_get cleanedJson ''fluencyCoherenceScore'') (JNum 0)),
             (''feedbackText'', js_or (js_get cleanedJson ''feedbackText'') (JStr [])),
             (''mistakesAndCorrections'', js_or (js_get cleanedJson ''mistakesAndCorrections'') (JArr [])),
             (''weaknesses'', js_or (js_get cleanedJson ''weaknesses'') (JArr [])),
             (''improvements'', js_or (js_get cleanedJson ''improvements'') (JArr []))] None)] None))"

text \<open>\<open>typeof v === 'number'\<close>.\<close>

fun is_number :: "jsval \<Rightarrow> bool" where
  "is_number (JNum x) = True"
| "is_number v = False"

definition score_keys :: "string list" where
  "score_keys = [''taskAchievementScore'', ''pronunciationScore'', ''grammarScore'',
                 ''fluencyCoherenceScore'']"

definition list_keys :: "string list" where
  "list_keys = [''mistakesAndCorrections'', ''weaknesses'', ''improvements'']"

text \<open>
  Two sample replies: a score sent as a string; and a reply with a missing field, a
  \<open>null\<close> score, a score that is a star, and a feedback text under \<open>__proto__\<close>.
  (Stars reach the parsed reply only as escapes: the raw text has had its stars removed.)
\<close>

definition string_score_response :: json where
  "string_score_response = PObj [(''taskAchievementScore'', PStr ''7'')]"

definition sparse_response :: json where
  "sparse_response =
     PObj [(''taskAchievementScore'', PNum 7), (''grammarScore'', PNull),
           (''pronunciationScore'', PStr ''*''),
           (''__proto__'', PObj [(''feedbackText'', PStr ''*inherited*'')])]"

lemma clean_null: "clean json = JNull \<longleftrightarrow> json = PNull"
  by (cases json) (simp_all add: Let_def)

lemma js_or_number: "is_number (js_or v (JNum 0)) \<longleftrightarrow> is_number v \<or> \<not> truthy v"
  by (cases v) (auto simp: js_or_def)

lemma processStudentInput_EXAM_null: "processStudentInput_EXAM PNull = Inl TypeError"
  by (simp add: processStudentInput_EXAM_def)

text \<open>
  Claim C10, as amended. For every parsed reply other than \<open>null\<close>, the function returns
  a record in which no field of the feedback is \<open>undefined\<close> or \<open>null\<close>. Each field
  is the value read under its name from the cleaned reply (the reply with the stars
  removed from its strings; the read follows the prototype a \<open>__proto__\<close> member has
  set) when that value is truthy, and otherwise the default: 0 for the four sub-scores,
  the empty string for the feedback text, the empty list for the three lists. So a
  sub-score is a number exactly when the value read is a number or is not truthy.
\<close>

theorem C10_feedback_fields_defined:
  assumes "json \<noteq> PNull"
  shows "\<exists>ret. processStudentInput_EXAM json = Inr ret \<and>
     (let fb = js_get ret ''feedback''; c = clean json in
        (\<forall>k \<in> set score_keys.
            js_get fb k = (if truthy (js_get c k) then js_get c k else JNum 0)
          \<and> js_get fb k \<noteq> JUndefined \<and> js_get fb k \<noteq> JNull
          \<and> (is_number (js_get fb k) \<longleftrightarrow> is_number (js_get c k) \<or> \<not> truthy (js_get c k)))
      \<and> js_get fb ''feedbackText''
            = (if truthy (js_get c ''feedbackText'') then js_get c ''feedbackText'' else JStr [])
      \<and> js_get fb ''feedbackText'' \<noteq> JUndefined \<and> js_get fb ''feedbackText'' \<noteq> JNull
      \<and> (\<forall>k \<in> set list_keys.
            js_get fb k = (if truthy (js_get c k) then js_get c k else JArr [])
          \<and> js_get fb k \<noteq> JUndefined \<and> js_get fb k \<noteq> JNull))"
proof -
  have c: "clean json \<noteq> JNull"
    using assms by (simp add: clean_null)
  have d: "js_or v (JNum 0) \<noteq> JUndefined" "js_or v (JNum 0) \<noteq> JNull"
          "js_or v (JStr []) \<noteq> JUndefined" "js_or v (JStr []) \<noteq> JNull"
          "js_or v (JArr []) \<noteq> JUndefined" "js_or v (JArr []) \<noteq> JNull" for v
    by (cases v; simp add: js_or_def)+
  show ?thesis
    using c by (simp add: processStudentInput_EXAM_def Let_def score_keys_def list_keys_def
        d js_or_number) (simp add: js_or_def)
qed

theorem C10_feedback_fields_witness:
  "sparse_response \<noteq> PNull \<and>
   (\<exists>ret. processStudentInput_EXAM sparse_response = Inr ret \<and>
      js_get (js_get ret ''feedback'') ''taskAchievementScore'' = JNum 7 \<and>
      js_get (js_get ret ''feedback'') ''pronunciationScore'' = JNum 0 \<and>
      js_get (js_get ret ''feedback'') ''grammarScore'' = JNum 0 \<and>
      js_get (js_get ret ''feedback'') ''feedbackText'' = JStr ''inherited'' \<and>
      js_get (js_get ret ''feedback'') ''weaknesses'' = JArr [])"
  using C10_feedback_fields_defined [of sparse_response]
  by (simp add: sparse_response_def processStudentInput_EXAM_def Let_def js_or_def)

text \<open>
  The claim as stated fails: a truthy value that is not a number is passed through, so a
  reply with the score \<open>"7"\<close> gives a feedback record whose score is a string.
\<close>

theorem C10_string_score_counterexample:
  "(case processStudentInput_EXAM string_score_response of
      Inl e \<Rightarrow> False
    | Inr ret \<Rightarrow>
        js_get (js_get ret ''feedback'') ''taskAchievementScore'' = JStr ''7''
        \<and> \<not> is_number (js_get (js_get ret ''feedback'') ''taskAchievementScore''))"
  by (simp add: string_score_response_def processStudentInput_EXAM_def Let_def js_or_def)


section \<open>The exam turn flow (ExamMode.tsx)\<close>

subsection \<open>State\<close>

text \<open>
  What \<open>processStudentInput\<close> resolves to, as \<open>handleSubmission\<close> reads it;
  \<open>moveNext\<close> is read for its truthiness only.
\<close>

record eval_result =
  reply :: string
  feedback :: FeedbackData
  moveNext :: bool

text \<open>The \<open>state\<close> attribute of a \<open>MediaRecorder\<close>.\<close>

datatype RecordingState = Rec_inactive | Rec_recording

text \<open>
  The state of one \<open>ExamMode\<close> component: the prop \<open>isStandalone\<close>, the state
  variables and the refs of the component under their own names, and four fields for what
  lies outside the component:
  \<^item> \<open>micGranted\<close>: whether \<open>getUserMedia\<close> resolves (or rejects) when it is called;
  \<^item> \<open>aiPlayback\<close>: a prompt is being synthesised or played, and the end of the playback
    (\<open>onended\<close>, the fallback speech, or the two-second timer) will call
    \<open>handleAiFinishedSpeaking\<close>;
  \<^item> \<open>topicRequest\<close>: \<open>setupNextPart\<close> is waiting for the topic of the given part;
  \<^item> \<open>submission\<close>: \<open>handleSubmission\<close> is waiting for \<open>processStudentInput\<close>,
    holding the value of its local constant \<open>nextTurn\<close>.

  Each of the last three holds one piece of pending work; in the states of a part that
  was entered with nothing pending no second playback or submission is started while one
  is pending (by the invariant below, a playback is started only outside AI_SPEAKING and a
  recorder is stopped only while no submission is pending). In the run of claim C1 that
  enters the next part with an evaluation pending, that evaluation settles before the next
  recorder is stopped. The images, the audio element, the microphone stream and the
  recorded chunks are left out: no branch of the handlers below reads them.

  Handlers run one at a time, to completion or to their next \<open>await\<close>, on the state
  current when they run. (In the browser a handler that continues asynchronous work reads
  \<open>part\<close> and \<open>status\<close> as they were in the render that started the work;
  \<open>part\<close> does not change within one part. An evaluation that settles after the
  part has changed stores its record under the part the recording was made in; the model
  stores it under the current part, and no statement below reads the results history in
  such a run.) Two waits are taken as immediate:
  \<open>getUserMedia\<close> in \<open>startRecording\<close> settles in the same step, and the
  \<open>stop\<close> event of the recorder is delivered, and so \<open>handleSubmission\<close> is started,
  in the step that calls \<open>stop()\<close>.
\<close>

record exam =
  isStandalone :: bool
  hasStarted :: bool
  part :: ExamPart
  status :: ExamStatus
  aiMessage :: string
  currentFeedback :: "FeedbackData option"
  resultsHistory :: "ExamPart \<Rightarrow> FeedbackData option"
  quotaError :: bool
  timeLeft :: int
  totalTime :: int
  isNewPartRef :: bool
  autoAdvanceRef :: bool
  turnCountRef :: int
  isRecording :: bool
  mediaRecorderRef :: "RecordingState option"
  micGranted :: bool
  aiPlayback :: bool
  topicRequest :: "ExamPart option"
  submission :: "int option"

text \<open>The state after mounting: the initial values and the first effect.\<close>

definition welcome_message :: "ExamPart \<Rightarrow> string" where
  "welcome_message initialPart =
     (if initialPart = INTRO then
        ''Welcome to the Speaking Exam. In Part 1, I'd like you to introduce yourself. Please tell me about your background, hobbies, and studies.''
      else if initialPart = PICTURE then
        ''Welcome. We will now begin Part 2: Picture Comparison. Please wait while I prepare the topics for you.''
      else
        ''Welcome. We will now begin Part 3: Discussion. Please wait while I prepare a topic for you.'')"

definition mount :: "ExamPart \<Rightarrow> bool \<Rightarrow> bool \<Rightarrow> exam" where
  "mount initialPart standalone mic =
     \<lparr> isStandalone = standalone, hasStarted = False, part = initialPart, status = IDLE,
       aiMessage = welcome_message initialPart, currentFeedback = None, resultsHistory = Map.empty,
       quotaError = False, timeLeft = 0, totalTime = 0, isNewPartRef = True,
       autoAdvanceRef = False, turnCountRef = 0, isRecording = False,
       mediaRecorderRef = None, micGranted = mic, aiPlayback = False, topicRequest = None,
       submission = None \<rparr>"

subsection \<open>Handlers\<close>

text \<open>
  \<open>playAiAudio\<close> and \<open>playAudioUrl\<close>: the status changes at once, the playback ends
  later. \<open>synthesizeSpeech\<close> catches every error itself, so the \<open>catch\<close> branch of
  \<open>playAiAudio\<close> is never taken.
\<close>

definition playAiAudio :: "string \<Rightarrow> exam \<Rightarrow> exam" where
  "playAiAudio text s = s\<lparr> status := AI_SPEAKING, aiPlayback := True \<rparr>"

definition startRecording :: "exam \<Rightarrow> exam" where
  "startRecording s =
     (if micGranted s
      then s\<lparr> mediaRecorderRef := Some Rec_recording, isRecording := True \<rparr>
      else s)"

text \<open>
  \<open>handleSubmission\<close> up to its \<open>await\<close>, and from it on. The recorder's
  \<open>onstop\<close> handler, set in \<open>startRecording\<close>, calls \<open>handleSubmission\<close> whenever
  the recorder is stopped, whoever stops it. (\<open>stop()\<close> on a recorder that is not
  recording raises in the browser; the handlers call it only under \<open>isRecording\<close>, and
  the model leaves the state as it is there.)
\<close>

definition handleSubmission_begin :: "exam \<Rightarrow> exam" where
  "handleSubmission_begin s =
     (let s1 = s\<lparr> quotaError := False \<rparr>;
          nextTurn = turnCountRef s1 + 1
      in s1\<lparr> submission := Some nextTurn \<rparr>)"

definition MediaRecorder_stop :: "exam \<Rightarrow> exam" where
  "MediaRecorder_stop s =
     (case mediaRecorderRef s of
        Some Rec_recording \<Rightarrow> handleSubmission_begin (s\<lparr> mediaRecorderRef := Some Rec_inactive \<rparr>)
      | _ \<Rightarrow> s)"

definition stopRecording :: "exam \<Rightarrow> exam" where
  "stopRecording s =
     (if mediaRecorderRef s \<noteq> None \<and> isRecording s
      then (MediaRecorder_stop s)\<lparr> isRecording := False, status := PROCESSING \<rparr>
      else s)"

definition apology :: string where
  "apology = ''I'm so'' @ ''rry, I had trouble processing that. Please try again.''"

definition handleSubmission_resume :: "js_error + eval_result \<Rightarrow> exam \<Rightarrow> exam" where
  "handleSubmission_resume settled s =
     (case submission s of
        None \<Rightarrow> s
      | Some nextTurn \<Rightarrow>
         (case settled of
            Inr result \<Rightarrow>
              (let s1 = s\<lparr> submission := None, turnCountRef := nextTurn,
                            currentFeedback := Some (feedback result) \<rparr>;
                   shouldFinish = (moveNext result \<or> autoAdvanceRef s1 \<or> nextTurn \<ge> 3)
               in if shouldFinish
                  then s1\<lparr> resultsHistory := (resultsHistory s1)(part s1 \<mapsto> feedback result),
                           status := PART_COMPLETED, autoAdvanceRef := False \<rparr>
                  else playAiAudio (reply result) (s1\<lparr> aiMessage := reply result \<rparr>))
          | Inl error \<Rightarrow>
              s\<lparr> submission := None, quotaError := True, aiMessage := apology,
                 status := IDLE \<rparr>))"

definition handleFinishWillingly :: "exam \<Rightarrow> exam" where
  "handleFinishWillingly s =
     (case currentFeedback s of
        Some f \<Rightarrow> s\<lparr> resultsHistory := (resultsHistory s)(part s \<mapsto> f),
                      status := PART_COMPLETED \<rparr>
      | None \<Rightarrow>
          (let s1 = s\<lparr> autoAdvanceRef := True \<rparr>
           in if isRecording s1 then stopRecording s1
              else s1\<lparr> status := PART_COMPLETED \<rparr>))"

definition skippedFeedback :: FeedbackData where
  "skippedFeedback =
     \<lparr> taskAchievementScore = 0, pronunciationScore = 0, grammarScore = 0,
       fluencyCoherenceScore = 0, feedbackText = ''Part skipped by student.'',
       mistakesAndCorrections = [], weaknesses = [], improvements = [] \<rparr>"

definition handleSkipPart :: "exam \<Rightarrow> exam" where
  "handleSkipPart s =
     (let s1 = (if isRecording s
                then (if mediaRecorderRef s \<noteq> None then MediaRecorder_stop s else s)
                       \<lparr> isRecording := False \<rparr>
                else s)
      in s1\<lparr> resultsHistory := (resultsHistory s1)(part s1 \<mapsto> skippedFeedback),
              currentFeedback := Some skippedFeedback,
              status := PART_COMPLETED,
              aiMessage := ''Part skipped.'' \<rparr>)"

definition handlePrepDone :: "exam \<Rightarrow> exam" where
  "handlePrepDone s =
     startRecording (s\<lparr> status := USER_SPEAKING, timeLeft := 120, totalTime := 120,
                         isNewPartRef := False \<rparr>)"

definition handleSpeakingDone :: "exam \<Rightarrow> exam" where
  "handleSpeakingDone s = stopRecording s"

definition handleAiFinishedSpeaking :: "exam \<Rightarrow> exam" where
  "handleAiFinishedSpeaking s =
     (if status s = COMPLETED \<or> status s = PART_COMPLETED then s
      else if part s = INTRO then
        (let s1 = s\<lparr> status := USER_SPEAKING \<rparr>
         in if isNewPartRef s1
            then startRecording (s1\<lparr> timeLeft := 120, totalTime := 120, isNewPartRef := False \<rparr>)
            else startRecording s1)
      else if part s = PICTURE \<or> part s = DISCUSSION then
        (if isNewPartRef s
         then s\<lparr> status := USER_PREP, timeLeft := 60, totalTime := 60 \<rparr>
         else startRecording (s\<lparr> status := USER_SPEAKING \<rparr>))
      else s\<lparr> status := IDLE \<rparr>)"

text \<open>
  \<open>setupNextPart\<close> up to its first \<open>await\<close>, and from the arrival of the topic on.
  \<open>generateExamTopic\<close> and \<open>generateExamImage\<close> catch their own errors, so the
  \<open>catch\<close> branch is never taken.
\<close>

definition picture_instructions :: string where
  "picture_instructions = ''Part 2: Picture Comparison. Look at these two subjects and compare them. Think about the differences and similarities. You have 1 minute to prepare.''"

definition setupNextPart :: "ExamPart \<Rightarrow> exam \<Rightarrow> exam" where
  "setupNextPart targetPart s =
     (let s1 = s\<lparr> status := PROCESSING, turnCountRef := 0 \<rparr>
      in if targetPart = PICTURE \<or> targetPart = DISCUSSION
         then s1\<lparr> topicRequest := Some targetPart \<rparr>
         else s1)"

definition setupNextPart_resume :: "string \<Rightarrow> exam \<Rightarrow> exam" where
  "setupNextPart_resume topic s =
     (case topicRequest s of
        None \<Rightarrow> s
      | Some targetPart \<Rightarrow>
          (let s1 = s\<lparr> topicRequest := None \<rparr>
           in if targetPart = PICTURE then
                playAiAudio picture_instructions (s1\<lparr> aiMessage := picture_instructions \<rparr>)
              else if targetPart = DISCUSSION then
                (let instructions = ''Part 3: Discussion. '' @ topic @ '' You have 1 minute to prepare.''
                 in playAiAudio instructions (s1\<lparr> aiMessage := instructions \<rparr>))
              else s1))"

text \<open>
  The effect on \<open>[hasStarted, part]\<close>, \<open>handleStartExam\<close> and \<open>advancePart\<close>.
  \<open>next_part\<close> is \<open>prev + 1\<close>; \<open>advancePart\<close> applies it to INTRO and PICTURE only.
\<close>

definition partEffect :: "exam \<Rightarrow> exam" where
  "partEffect s =
     (if hasStarted s then
        (if part s = INTRO \<and> isNewPartRef s then playAiAudio (aiMessage s) s
         else if isNewPartRef s then setupNextPart (part s) s
         else s)
      else s)"

definition handleStartExam :: "exam \<Rightarrow> exam" where
  "handleStartExam s = s\<lparr> hasStarted := True \<rparr>"

definition next_part :: "ExamPart \<Rightarrow> ExamPart" where
  "next_part p = (case p of INTRO \<Rightarrow> PICTURE | PICTURE \<Rightarrow> DISCUSSION | DISCUSSION \<Rightarrow> DISCUSSION)"

definition advancePart :: "exam \<Rightarrow> exam" where
  "advancePart s =
     (if isStandalone s \<or> part s = DISCUSSION then s\<lparr> status := COMPLETED \<rparr>
      else s\<lparr> status := PROCESSING, isNewPartRef := True, currentFeedback := None,
              part := next_part (part s) \<rparr>)"

subsection \<open>The countdown\<close>

text \<open>
  The effect on \<open>[status, timeLeft, hasStarted, isRecording]\<close>: while
  \<open>shouldRunTimer\<close> holds an interval is set whose callback is \<open>tick\<close>; otherwise
  the effect itself calls the handler of the expired countdown.
\<close>

definition shouldRunTimer :: "exam \<Rightarrow> bool" where
  "shouldRunTimer s =
     ((status s = USER_PREP \<or> status s = USER_SPEAKING) \<and> timeLeft s > 0)"

definition tick :: "exam \<Rightarrow> exam" where
  "tick s = s\<lparr> timeLeft := (if timeLeft s \<le> 1 then 0 else timeLeft s - 1) \<rparr>"

definition timerEffect :: "exam \<Rightarrow> exam" where
  "timerEffect s =
     (if shouldRunTimer s then s
      else if timeLeft s = 0 \<and> hasStarted s then
        (if status s = USER_PREP then handlePrepDone s
         else if status s = USER_SPEAKING \<and> isRecording s then handleSpeakingDone s
         else s)
      else s)"

definition timer_deps :: "exam \<Rightarrow> ExamStatus \<times> int \<times> bool \<times> bool" where
  "timer_deps s = (status s, timeLeft s, hasStarted s, isRecording s)"

subsection \<open>Events\<close>

text \<open>
  The main screen is rendered when none of the three early \<open>return\<close>s of the render
  function applies; a button can only be pressed while it is rendered. \<open>handle\<close> is the
  handler of an event under the condition the event needs: the render condition of the
  button for a click, the interval for a tick, the pending work for a completion.
  \<open>MicPermission\<close> is the user granting or denying the microphone. \<open>step\<close> runs the
  countdown effect after the handler when one of its dependencies has changed. There is
  no event for the button of the part summary: a run of events stays in one part. The
  button of the error banner, which only clears \<open>quotaError\<close>, is not an event
  either: no handler reads \<open>quotaError\<close>.
\<close>

definition main_screen :: "exam \<Rightarrow> bool" where
  "main_screen s =
     (hasStarted s \<and> status s \<noteq> COMPLETED
      \<and> \<not> (status s = PART_COMPLETED \<and> currentFeedback s \<noteq> None))"

datatype event =
    StartExam
  | TopicReady string
  | AiFinished
  | Tick
  | PrepDoneClick
  | StartSpeakingClick
  | SubmitClick
  | FinishClick
  | SkipClick
  | EvalSettled "js_error + eval_result"
  | MicPermission bool

fun handle :: "event \<Rightarrow> exam \<Rightarrow> exam" where
  "handle StartExam s =
     (if \<not> hasStarted s then partEffect (timerEffect (handleStartExam s)) else s)"
| "handle (TopicReady topic) s = setupNextPart_resume topic s"
| "handle AiFinished s =
     (if aiPlayback s then handleAiFinishedSpeaking (s\<lparr> aiPlayback := False \<rparr>) else s)"
| "handle Tick s = (if shouldRunTimer s then tick s else s)"
| "handle PrepDoneClick s =
     (if main_screen s \<and> status s = USER_PREP then handlePrepDone s else s)"
| "handle StartSpeakingClick s =
     (if main_screen s \<and> status s = USER_SPEAKING \<and> \<not> isRecording s
      then startRecording s else s)"
| "handle SubmitClick s =
     (if main_screen s \<and> isRecording s then stopRecording s else s)"
| "handle FinishClick s =
     (if main_screen s \<and> status s = USER_SPEAKING \<and> \<not> isRecording s \<and> turnCountRef s > 0
      then handleFinishWillingly s else s)"
| "handle SkipClick s =
     (if main_screen s \<and> (status s = USER_PREP \<or> status s = USER_SPEAKING)
      then handleSkipPart s else s)"
| "handle (EvalSettled settled) s = handleSubmission_resume settled s"
| "handle (MicPermission granted) s = s\<lparr> micGranted := granted \<rparr>"

definition step :: "event \<Rightarrow> exam \<Rightarrow> exam" where
  "step e s =
     (let s1 = handle e s
      in if timer_deps s1 = timer_deps s then s1 else timerEffect s1)"

fun run :: "event list \<Rightarrow> exam \<Rightarrow> exam" where
  "run [] s = s"
| "run (e # es) s = run es (step e s)"

text \<open>
  A part is entered by mounting the component, or by \<open>advancePart\<close> and the effect on
  \<open>part\<close> from the summary of the part before. \<open>part_entry\<close> describes the
  entries at which no recording, playback or evaluation of the part before is still
  pending. \<open>advancePart\<close> itself does not wait for them: an entry with an evaluation
  still pending is evaluated under claim C1 below.
\<close>

inductive part_entry :: "exam \<Rightarrow> bool" where
  mounted: "part_entry (mount initialPart standalone mic)"
| advanced:
    "\<lbrakk> hasStarted s; status s = PART_COMPLETED; \<not> isStandalone s; part s \<noteq> DISCUSSION;
       \<not> isRecording s; mediaRecorderRef s \<noteq> Some Rec_recording; \<not> aiPlayback s;
       topicRequest s = None; submission s = None \<rbrakk>
     \<Longrightarrow> part_entry (partEffect (advancePart s))"

text \<open>The event is the successful completion of a pending submission.\<close>

fun completes_submission :: "event \<Rightarrow> exam \<Rightarrow> bool" where
  "completes_submission (EvalSettled (Inr result)) s = (submission s \<noteq> None)"
| "completes_submission e s = False"

text \<open>
  The condition under which the countdown effect calls \<open>handlePrepDone\<close> or
  \<open>handleSpeakingDone\<close>, and the number of steps of a run at which the effect of
  \<open>step\<close> does so.
\<close>

definition timeExpired :: "exam \<Rightarrow> bool" where
  "timeExpired s =
     (\<not> shouldRunTimer s \<and> timeLeft s = 0 \<and> hasStarted s
      \<and> (status s = USER_PREP \<or> (status s = USER_SPEAKING \<and> isRecording s)))"

fun expiries :: "event list \<Rightarrow> exam \<Rightarrow> nat" where
  "expiries [] s = 0"
| "expiries (e # es) s =
     (let s1 = handle e s
      in (if timer_deps s1 \<noteq> timer_deps s \<and> timeExpired s1 then 1 else 0)
         + expiries es (step e s))"

text \<open>Two sample evaluation results: one asks to continue, one to move on.\<close>

definition r_cont :: eval_result where
  "r_cont = \<lparr> reply = ''And why?'', feedback = scores 8 7 9 8, moveNext = False \<rparr>"

definition r_next :: eval_result where
  "r_next = \<lparr> reply = ''Thanks.'', feedback = scores 9 8 7 9, moveNext = True \<rparr>"

subsection \<open>An invariant of the turn flow\<close>

text \<open>
  What holds in every state of a part: the counter is between 0 and 3 and is 3 only in
  PART_COMPLETED; a positive counter comes with a stored feedback; a recorder records
  exactly when \<open>isRecording\<close> is set, and only in USER_SPEAKING; a playback is pending
  only in AI_SPEAKING; a pending submission holds the counter plus one, below the cap.
\<close>

definition turn_inv :: "exam \<Rightarrow> bool" where
  "turn_inv s =
     (0 \<le> turnCountRef s \<and> turnCountRef s \<le> 3
      \<and> (turnCountRef s = 3 \<longrightarrow> status s = PART_COMPLETED)
      \<and> (0 < turnCountRef s \<longrightarrow> currentFeedback s \<noteq> None \<and> hasStarted s)
      \<and> (isRecording s \<longleftrightarrow> mediaRecorderRef s = Some Rec_recording)
      \<and> (isRecording s \<longrightarrow> status s = USER_SPEAKING)
      \<and> (aiPlayback s \<longrightarrow> status s = AI_SPEAKING)
      \<and> (\<forall>n. submission s = Some n \<longrightarrow> n = turnCountRef s + 1)
      \<and> (submission s \<noteq> None \<longrightarrow>
            turnCountRef s < 3
            \<and> (status s = PROCESSING \<or> status s = PART_COMPLETED \<and> currentFeedback s \<noteq> None))
      \<and> (topicRequest s \<noteq> None \<longrightarrow>
            status s = PROCESSING \<and> submission s = None \<and> turnCountRef s = 0)
      \<and> (status s = USER_PREP \<or> status s = USER_SPEAKING \<or> status s = AI_SPEAKING \<longrightarrow>
            submission s = None \<and> topicRequest s = None)
      \<and> (\<not> hasStarted s \<longrightarrow>
            status s = IDLE \<and> submission s = None \<and> topicRequest s = None
            \<and> turnCountRef s = 0))"


lemma turn_invI:
  assumes "0 \<le> turnCountRef s" "turnCountRef s \<le> 3"
    "turnCountRef s = 3 \<Longrightarrow> status s = PART_COMPLETED"
    "0 < turnCountRef s \<Longrightarrow> currentFeedback s \<noteq> None"
    "0 < turnCountRef s \<Longrightarrow> hasStarted s"
    "isRecording s \<longleftrightarrow> mediaRecorderRef s = Some Rec_recording"
    "isRecording s \<Longrightarrow> status s = USER_SPEAKING"
    "aiPlayback s \<Longrightarrow> status s = AI_SPEAKING"
    "\<And>n. submission s = Some n \<Longrightarrow> n = turnCountRef s + 1"
    "submission s \<noteq> None \<Longrightarrow> turnCountRef s < 3"
    "submission s \<noteq> None \<Longrightarrow>
       status s = PROCESSING \<or> status s = PART_COMPLETED \<and> currentFeedback s \<noteq> None"
    "topicRequest s \<noteq> None \<Longrightarrow> status s = PROCESSING"
    "topicRequest s \<noteq> None \<Longrightarrow> submission s = None"
    "topicRequest s \<noteq> None \<Longrightarrow> turnCountRef s = 0"
    "status s = USER_PREP \<or> status s = USER_SPEAKING \<or> status s = AI_SPEAKING \<Longrightarrow>
       submission s = None"
    "status s = USER_PREP \<or> status s = USER_SPEAKING \<or> status s = AI_SPEAKING \<Longrightarrow>
       topicRequest s = None"
    "\<not> hasStarted s \<Longrightarrow> status s = IDLE"
    "\<not> hasStarted s \<Longrightarrow> submission s = None"
    "\<not> hasStarted s \<Longrightarrow> topicRequest s = None"
    "\<not> hasStarted s \<Longrightarrow> turnCountRef s = 0"
  shows "turn_inv s"
  unfolding turn_inv_def
  by (intro conjI impI allI; (rule assms; assumption?))

lemma turn_inv_facts:
  assumes i: "turn_inv s"
  shows "0 \<le> turnCountRef s" "turnCountRef s \<le> 3"
    "turnCountRef s = 3 \<Longrightarrow> status s = PART_COMPLETED"
    "0 < turnCountRef s \<Longrightarrow> currentFeedback s \<noteq> None"
    "0 < turnCountRef s \<Longrightarrow> hasStarted s"
    "isRecording s \<longleftrightarrow> mediaRecorderRef s = Some Rec_recording"
    "isRecording s \<Longrightarrow> status s = USER_SPEAKING"
    "aiPlayback s \<Longrightarrow> status s = AI_SPEAKING"
    "\<And>n. submission s = Some n \<Longrightarrow> n = turnCountRef s + 1"
    "submission s \<noteq> None \<Longrightarrow> turnCountRef s < 3"
    "submission s \<noteq> None \<Longrightarrow>
       status s = PROCESSING \<or> status s = PART_COMPLETED \<and> currentFeedback s \<noteq> None"
    "topicRequest s \<noteq> None \<Longrightarrow> status s = PROCESSING"
    "topicRequest s \<noteq> None \<Longrightarrow> submission s = None"
    "topicRequest s \<noteq> None \<Longrightarrow> turnCountRef s = 0"
    "status s = USER_PREP \<or> status s = USER_SPEAKING \<or> status s = AI_SPEAKING \<Longrightarrow>
       submission s = None"
    "status s = USER_PREP \<or> status s = USER_SPEAKING \<or> status s = AI_SPEAKING \<Longrightarrow>
       topicRequest s = None"
    "\<not> hasStarted s \<Longrightarrow> status s = IDLE"
    "\<not> hasStarted s \<Longrightarrow> submission s = None"
    "\<not> hasStarted s \<Longrightarrow> topicRequest s = None"
    "\<not> hasStarted s \<Longrightarrow> turnCountRef s = 0"
proof -
  note d = i [unfolded turn_inv_def]
  show "0 \<le> turnCountRef s" by (rule d [THEN conjunct1])
  show "turnCountRef s \<le> 3" by (rule d [THEN conjunct2, THEN conjunct1])
  show "turnCountRef s = 3 \<Longrightarrow> status s = PART_COMPLETED"
    using d [THEN conjunct2, THEN conjunct2, THEN conjunct1] by (rule mp)
  have c4: "0 < turnCountRef s \<longrightarrow> currentFeedback s \<noteq> None \<and> hasStarted s"
    by (rule d [THEN conjunct2, THEN conjunct2, THEN conjunct2, THEN conjunct1])
  show "0 < turnCountRef s \<Longrightarrow> currentFeedback s \<noteq> None"
    using c4 by (rule mp [THEN conjunct1])
  show "0 < turnCountRef s \<Longrightarrow> hasStarted s"
    using c4 by (rule mp [THEN conjunct2])
  show "isRecording s \<longleftrightarrow> mediaRecorderRef s = Some Rec_recording" by (rule d [THEN conjunct2, THEN conjunct2, THEN conjunct2, THEN conjunct2, THEN conjunct1])
  show "isRecording s \<Longrightarrow> status s = USER_SPEAKING" using d [THEN conjunct2, THEN conjunct2, THEN conjunct2, THEN conjunct2, THEN conjunct2, THEN conjunct1] by (rule mp)
  show "aiPlayback s \<Longrightarrow> status s = AI_SPEAKING" using d [THEN conjunct2, THEN conjunct2, THEN conjunct2, THEN conjunct2, THEN conjunct2, THEN conjunct2, THEN conjunct1] by (rule mp)
  have c8: "\<forall>n. submission s = Some n \<longrightarrow> n = turnCountRef s + 1"
    by (rule d [THEN conjunct2, THEN conjunct2, THEN conjunct2, THEN conjunct2, THEN conjunct2, THEN conjunct2, THEN conjunct2, THEN conjunct1])
  show "\<And>n. submission s = Some n \<Longrightarrow> n = turnCountRef s + 1"
  proof -
    fix n assume "submission s = Some n"
    with c8 [THEN spec, of n] show "n = turnCountRef s + 1" by (rule mp)
  qed
  have c9: "submission s \<noteq> None \<longrightarrow> turnCountRef s < 3
      \<and> (status s = PROCESSING \<or> status s = PART_COMPLETED \<and> currentFeedback s \<noteq> None)"
    by (rule d [THEN conjunct2, THEN conjunct2, THEN conjunct2, THEN conjunct2, THEN conjunct2, THEN conjunct2, THEN conjunct2, THEN conjunct2, THEN conjunct1])
  show "submission s \<noteq> None \<Longrightarrow> turnCountRef s < 3"
    using c9 by (rule mp [THEN conjunct1])
  show "submission s \<noteq> None \<Longrightarrow>
       status s = PROCESSING \<or> status s = PART_COMPLETED \<and> currentFeedback s \<noteq> None"
    using c9 by (rule mp [THEN conjunct2])
  have c10: "topicRequest s \<noteq> None \<longrightarrow>
      status s = PROCESSING \<and> submission s = None \<and> turnCountRef s = 0"
    by (rule d [THEN conjunct2, THEN conjunct2, THEN conjunct2, THEN conjunct2, THEN conjunct2, THEN conjunct2, THEN conjunct2, THEN conjunct2, THEN conjunct2, THEN conjunct1])
  show "topicRequest s \<noteq> None \<Longrightarrow> status s = PROCESSING"
    using c10 by (rule mp [THEN conjunct1])
  show "topicRequest s \<noteq> None \<Longrightarrow> submission s = None"
    using c10 by (rule mp [THEN conjunct2, THEN conjunct1])
  show "topicRequest s \<noteq> None \<Longrightarrow> turnCountRef s = 0"
    using c10 by (rule mp [THEN conjunct2, THEN conjunct2])
  have c11: "status s = USER_PREP \<or> status s = USER_SPEAKING \<or> status s = AI_SPEAKING \<longrightarrow>
      submission s = None \<and> topicRequest s = None"
    by (rule d [THEN conjunct2, THEN conjunct2, THEN conjunct2, THEN conjunct2, THEN conjunct2, THEN conjunct2, THEN conjunct2, THEN conjunct2, THEN conjunct2, THEN conjunct2, THEN conjunct1])
  show "status s = USER_PREP \<or> status s = USER_SPEAKING \<or> status s = AI_SPEAKING \<Longrightarrow>
       submission s = None"
    using c11 by (rule mp [THEN conjunct1])
  show "status s = USER_PREP \<or> status s = USER_SPEAKING \<or> status s = AI_SPEAKING \<Longrightarrow>
       topicRequest s = None"
    using c11 by (rule mp [THEN conjunct2])
  have c12: "\<not> hasStarted s \<longrightarrow>
      status s = IDLE \<and> submission s = None \<and> topicRequest s = None \<and> turnCountRef s = 0"
    by (rule d [THEN conjunct2, THEN conjunct2, THEN conjunct2, THEN conjunct2, THEN conjunct2, THEN conjunct2, THEN conjunct2, THEN conjunct2, THEN conjunct2, THEN conjunct2, THEN conjunct2])
  show "\<not> hasStarted s \<Longrightarrow> status s = IDLE"
    using c12 by (rule mp [THEN conjunct1])
  show "\<not> hasStarted s \<Longrightarrow> submission s = None"
    using c12 by (rule mp [THEN conjunct2, THEN conjunct1])
  show "\<not> hasStarted s \<Longrightarrow> topicRequest s = None"
    using c12 by (rule mp [THEN conjunct2, THEN conjunct2, THEN conjunct1])
  show "\<not> hasStarted s \<Longrightarrow> turnCountRef s = 0"
    using c12 by (rule mp [THEN conjunct2, THEN conjunct2, THEN conjunct2])
qed

lemma turn_inv_below_cap:
  "turn_inv s \<Longrightarrow> status s \<noteq> PART_COMPLETED \<Longrightarrow> turnCountRef s < 3"
  using turn_inv_facts(2,3) [of s] by (cases "turnCountRef s = 3") simp_all

lemma turn_inv_started:
  "turn_inv s \<Longrightarrow> status s \<noteq> IDLE \<Longrightarrow> hasStarted s"
  using turn_inv_facts(17) [of s] by blast

lemma turn_inv_not_recording:
  "turn_inv s \<Longrightarrow> status s \<noteq> USER_SPEAKING \<Longrightarrow> \<not> isRecording s"
  "turn_inv s \<Longrightarrow> status s \<noteq> USER_SPEAKING \<Longrightarrow> mediaRecorderRef s \<noteq> Some Rec_recording"
  using turn_inv_facts(6,7) [of s] by blast+

lemma turn_inv_no_playback:
  "turn_inv s \<Longrightarrow> status s \<noteq> AI_SPEAKING \<Longrightarrow> \<not> aiPlayback s"
  using turn_inv_facts(8) [of s] by blast

lemma turn_inv_frame [simp]:
  "turn_inv (s\<lparr> aiMessage := m \<rparr>) = turn_inv s"
  "turn_inv (s\<lparr> quotaError := q \<rparr>) = turn_inv s"
  "turn_inv (s\<lparr> timeLeft := t \<rparr>) = turn_inv s"
  "turn_inv (s\<lparr> totalTime := t \<rparr>) = turn_inv s"
  "turn_inv (s\<lparr> isNewPartRef := b \<rparr>) = turn_inv s"
  "turn_inv (s\<lparr> autoAdvanceRef := b \<rparr>) = turn_inv s"
  "turn_inv (s\<lparr> micGranted := b \<rparr>) = turn_inv s"
  "turn_inv (s\<lparr> resultsHistory := h \<rparr>) = turn_inv s"
  by (simp_all add: turn_inv_def)

lemma turn_inv_startRecording:
  assumes i: "turn_inv s" and st: "status s = USER_SPEAKING"
  shows "turn_inv (startRecording s)"
proof (cases "micGranted s")
  case False
  then show ?thesis using i by (simp add: startRecording_def)
next
  case True
  note f = turn_inv_facts [OF i]
  have "turn_inv (s\<lparr> mediaRecorderRef := Some Rec_recording, isRecording := True \<rparr>)"
    by (rule turn_invI) (use f st in simp_all)
  then show ?thesis using True by (simp add: startRecording_def)
qed

lemma turn_inv_stopRecording:
  assumes i: "turn_inv s"
  shows "turn_inv (stopRecording s)"
proof (cases "mediaRecorderRef s \<noteq> None \<and> isRecording s")
  case False
  then show ?thesis using i by (auto simp: stopRecording_def)
next
  case True
  note f = turn_inv_facts [OF i]
  have r: "mediaRecorderRef s = Some Rec_recording" using True f(6) by simp
  have st: "status s = USER_SPEAKING" using True f(7) by simp
  have t: "turnCountRef s < 3" using turn_inv_below_cap [OF i] st by simp
  have hs: "hasStarted s" using turn_inv_started [OF i] st by simp
  have np: "\<not> aiPlayback s" using turn_inv_no_playback [OF i] st by simp
  have tp: "topicRequest s = None" using f(16) st by simp
  have eq: "stopRecording s =
      s\<lparr> mediaRecorderRef := Some Rec_inactive, quotaError := False,
         submission := Some (turnCountRef s + 1), isRecording := False, status := PROCESSING \<rparr>"
    using True r by (simp add: stopRecording_def MediaRecorder_stop_def handleSubmission_begin_def
        Let_def)
  show ?thesis
    unfolding eq by (rule turn_invI) (use f(1,2,4,5) t hs np tp in simp_all)
qed

lemma turn_inv_handlePrepDone:
  assumes i: "turn_inv s" and st: "status s = USER_PREP"
  shows "turn_inv (handlePrepDone s)"
proof -
  note f = turn_inv_facts [OF i]
  have t: "turnCountRef s < 3" using turn_inv_below_cap [OF i] st by simp
  have hs: "hasStarted s" using turn_inv_started [OF i] st by simp
  have np: "\<not> aiPlayback s" using turn_inv_no_playback [OF i] st by simp
  have nr: "\<not> isRecording s" "mediaRecorderRef s \<noteq> Some Rec_recording"
    using turn_inv_not_recording [OF i] st by simp_all
  have "turn_inv (s\<lparr> status := USER_SPEAKING \<rparr>)"
    by (rule turn_invI) (use f(1,2,4,5,15,16) st t hs np nr in simp_all)
  then show ?thesis
    unfolding handlePrepDone_def by (intro turn_inv_startRecording) simp_all
qed

lemma turn_inv_timerEffect: "turn_inv s \<Longrightarrow> turn_inv (timerEffect s)"
  by (simp add: timerEffect_def handleSpeakingDone_def turn_inv_handlePrepDone
      turn_inv_stopRecording)

lemma turn_inv_playAiAudio:
  assumes i: "turn_inv s" and "hasStarted s" "\<not> isRecording s" "submission s = None"
    "topicRequest s = None" "turnCountRef s < 3"
  shows "turn_inv (playAiAudio text s)"
  unfolding playAiAudio_def
  by (rule turn_invI) (use turn_inv_facts(1,2,4,5,6) [OF i] assms(2-) in simp_all)

lemma turn_inv_handleAiFinishedSpeaking:
  assumes i: "turn_inv s" and p: "aiPlayback s"
  shows "turn_inv (handleAiFinishedSpeaking (s\<lparr> aiPlayback := False \<rparr>))"
proof -
  note f = turn_inv_facts [OF i]
  have st: "status s = AI_SPEAKING" using f(8) p by simp
  have t: "turnCountRef s < 3" using turn_inv_below_cap [OF i] st by simp
  have hs: "hasStarted s" using turn_inv_started [OF i] st by simp
  have nr: "\<not> isRecording s" "mediaRecorderRef s \<noteq> Some Rec_recording"
    using turn_inv_not_recording [OF i] st by simp_all
  have sb: "submission s = None" "topicRequest s = None" using f(15,16) st by simp_all
  have sp: "turn_inv (s\<lparr> aiPlayback := False, status := USER_SPEAKING \<rparr>)"
    by (rule turn_invI) (use f(1,2,4,5) t hs nr sb in simp_all)
  have pr: "turn_inv (s\<lparr> aiPlayback := False, status := USER_PREP \<rparr>)"
    by (rule turn_invI) (use f(1,2,4,5) t hs nr sb in simp_all)
  have id: "turn_inv (s\<lparr> aiPlayback := False, status := IDLE \<rparr>)"
    by (rule turn_invI) (use f(1,2,4,5) t hs nr sb in simp_all)
  show ?thesis
    using st sp pr id
    by (simp add: handleAiFinishedSpeaking_def Let_def turn_inv_startRecording)
qed

lemma turn_inv_setupNextPart:
  assumes i: "turn_inv s" and "hasStarted s" "\<not> isRecording s" "\<not> aiPlayback s"
    "submission s = None"
  shows "turn_inv (setupNextPart p s)"
proof -
  note f = turn_inv_facts [OF i]
  have a: "turn_inv (s\<lparr> status := PROCESSING, turnCountRef := 0 \<rparr>)"
    by (rule turn_invI) (use f(6,12,13) assms(2-) in simp_all)
  have b: "turn_inv (s\<lparr> status := PROCESSING, turnCountRef := 0, topicRequest := Some p \<rparr>)"
    by (rule turn_invI) (use f(6) assms(2-) in simp_all)
  show ?thesis using a b by (simp add: setupNextPart_def Let_def)
qed

lemma turn_inv_handleStartExam:
  assumes i: "turn_inv s" and h: "\<not> hasStarted s"
  shows "turn_inv (partEffect (timerEffect (handleStartExam s)))"
proof -
  note f = turn_inv_facts [OF i]
  have st: "status s = IDLE" using f(17) h by simp
  have nr: "\<not> isRecording s" "mediaRecorderRef s \<noteq> Some Rec_recording"
    using turn_inv_not_recording [OF i] st by simp_all
  have np: "\<not> aiPlayback s" using turn_inv_no_playback [OF i] st by simp
  have t: "turnCountRef s = 0" using f(20) h by simp
  have te: "timerEffect (handleStartExam s) = handleStartExam s"
    using st by (simp add: timerEffect_def handleStartExam_def shouldRunTimer_def)
  have i1: "turn_inv (handleStartExam s)"
    unfolding handleStartExam_def
    by (rule turn_invI) (use st nr np t f(18,19) h in simp_all)
  show ?thesis
    unfolding te partEffect_def
    using i1 nr np t f(18,19) h
    by (simp add: turn_inv_playAiAudio turn_inv_setupNextPart handleStartExam_def)
qed

lemma turn_inv_setupNextPart_resume:
  assumes i: "turn_inv s"
  shows "turn_inv (setupNextPart_resume topic s)"
proof (cases "topicRequest s")
  case None
  then show ?thesis using i by (simp add: setupNextPart_resume_def)
next
  case (Some p)
  note f = turn_inv_facts [OF i]
  have st: "status s = PROCESSING" using f(12) Some by simp
  have nr: "\<not> isRecording s" "mediaRecorderRef s \<noteq> Some Rec_recording"
    using turn_inv_not_recording [OF i] st by simp_all
  have np: "\<not> aiPlayback s" using turn_inv_no_playback [OF i] st by simp
  have sb: "submission s = None" using f(13) Some by simp
  have t: "turnCountRef s = 0" using f(14) Some by simp
  have hs: "hasStarted s" using turn_inv_started [OF i] st by simp
  have i1: "turn_inv (s\<lparr> topicRequest := None \<rparr>)"
    by (rule turn_invI) (use st nr np sb t hs in simp_all)
  show ?thesis
    using Some i1 nr np sb t hs
    by (simp add: setupNextPart_resume_def Let_def turn_inv_playAiAudio)
qed

lemma turn_inv_handleFinishWillingly:
  assumes i: "turn_inv s" and st: "status s = USER_SPEAKING" and nr: "\<not> isRecording s"
    and t: "0 < turnCountRef s"
  shows "turn_inv (handleFinishWillingly s)"
proof -
  note f = turn_inv_facts [OF i]
  obtain fb where fb: "currentFeedback s = Some fb" using f(4) t by auto
  have np: "\<not> aiPlayback s" using turn_inv_no_playback [OF i] st by simp
  have hs: "hasStarted s" using f(5) t by simp
  have sb: "submission s = None" "topicRequest s = None" using f(15,16) st by simp_all
  have eq: "handleFinishWillingly s =
      s\<lparr> resultsHistory := (resultsHistory s)(part s \<mapsto> fb), status := PART_COMPLETED \<rparr>"
    using fb by (simp add: handleFinishWillingly_def)
  show ?thesis unfolding eq
    by (rule turn_invI) (use f(1,2,6) nr fb np hs sb in simp_all)
qed

lemma turn_inv_handleSkipPart:
  assumes i: "turn_inv s" and hs: "hasStarted s"
    and st: "status s = USER_PREP \<or> status s = USER_SPEAKING"
  shows "turn_inv (handleSkipPart s)"
proof -
  note f = turn_inv_facts [OF i]
  have sb: "submission s = None" and tp: "topicRequest s = None" using f(15,16) st by auto
  have np: "\<not> aiPlayback s" using turn_inv_no_playback [OF i] st by auto
  have t: "turnCountRef s < 3" using turn_inv_below_cap [OF i] st by auto
  show ?thesis
  proof (cases "isRecording s")
    case False
    then have eq: "handleSkipPart s =
      s\<lparr> resultsHistory := (resultsHistory s)(part s \<mapsto> skippedFeedback),
         currentFeedback := Some skippedFeedback, status := PART_COMPLETED,
         aiMessage := ''Part skipped.'' \<rparr>"
      by (simp add: handleSkipPart_def Let_def)
    show ?thesis unfolding eq
      by (rule turn_invI) (use False sb tp np t hs f(1,2,6) in simp_all)
  next
    case True
    then have r: "mediaRecorderRef s = Some Rec_recording" using f(6) by simp
    have eq: "handleSkipPart s =
      s\<lparr> mediaRecorderRef := Some Rec_inactive, quotaError := False,
         submission := Some (turnCountRef s + 1), isRecording := False,
         resultsHistory := (resultsHistory s)(part s \<mapsto> skippedFeedback),
         currentFeedback := Some skippedFeedback, status := PART_COMPLETED,
         aiMessage := ''Part skipped.'' \<rparr>"
      using True r by (simp add: handleSkipPart_def Let_def MediaRecorder_stop_def
          handleSubmission_begin_def)
    show ?thesis unfolding eq
      by (rule turn_invI) (use tp np t hs f(1,2) in simp_all)
  qed
qed

lemma turn_inv_handleSubmission_resume:
  assumes i: "turn_inv s"
  shows "turn_inv (handleSubmission_resume settled s)"
proof (cases "submission s")
  case None
  then show ?thesis using i by (simp add: handleSubmission_resume_def)
next
  case (Some n)
  note f = turn_inv_facts [OF i]
  have n: "n = turnCountRef s + 1" using f(9) Some by simp
  have t: "turnCountRef s < 3" using f(10) Some by simp
  have st: "status s = PROCESSING \<or> status s = PART_COMPLETED" using f(11) Some by auto
  have nr: "\<not> isRecording s" "mediaRecorderRef s \<noteq> Some Rec_recording"
    using turn_inv_not_recording [OF i] st by auto
  have np: "\<not> aiPlayback s" using turn_inv_no_playback [OF i] st by auto
  have tp: "topicRequest s = None"
  proof (rule ccontr)
    assume "topicRequest s \<noteq> None"
    from f(13) [OF this] Some show False by simp
  qed
  have hs: "hasStarted s"
  proof (rule ccontr)
    assume "\<not> hasStarted s"
    from f(18) [OF this] Some show False by simp
  qed
  show ?thesis
  proof (cases settled)
    case (Inl e)
    then have eq: "handleSubmission_resume settled s =
        s\<lparr> submission := None, quotaError := True, aiMessage := apology, status := IDLE \<rparr>"
      using Some by (simp add: handleSubmission_resume_def)
    show ?thesis unfolding eq
      by (rule turn_invI) (use nr np tp hs t f(1,4) in simp_all)
  next
    case (Inr result)
    define s1 where "s1 = s\<lparr> submission := None, turnCountRef := n,
                            currentFeedback := Some (feedback result) \<rparr>"
    have i1: "turn_inv (s1\<lparr> resultsHistory := (resultsHistory s)(part s \<mapsto> feedback result),
                 status := PART_COMPLETED, autoAdvanceRef := False \<rparr>)"
      unfolding s1_def by (rule turn_invI) (use nr np tp hs t f(1) n in simp_all)
    have i2: "turn_inv (s1\<lparr> aiMessage := reply result, status := AI_SPEAKING,
                 aiPlayback := True \<rparr>)" if "n < 3"
      unfolding s1_def by (rule turn_invI) (use nr np tp hs t f(1) n that in simp_all)
    have eq: "handleSubmission_resume settled s =
       (if moveNext result \<or> autoAdvanceRef s \<or> n \<ge> 3
        then s1\<lparr> resultsHistory := (resultsHistory s)(part s \<mapsto> feedback result),
                 status := PART_COMPLETED, autoAdvanceRef := False \<rparr>
        else playAiAudio (reply result) (s1\<lparr> aiMessage := reply result \<rparr>))"
      using Some Inr unfolding s1_def by (simp add: handleSubmission_resume_def Let_def)
    show ?thesis unfolding eq using i1 i2 by (simp add: playAiAudio_def)
  qed
qed

lemma turn_inv_handle:
  assumes i: "turn_inv s"
  shows "turn_inv (handle e s)"
proof (cases e)
  case FinishClick
  then show ?thesis using i by (simp add: turn_inv_handleFinishWillingly)
next
  case SkipClick
  then show ?thesis using i by (auto simp: turn_inv_handleSkipPart main_screen_def)
next
  case StartSpeakingClick
  then show ?thesis using i by (simp add: turn_inv_startRecording)
next
  case PrepDoneClick
  then show ?thesis using i by (simp add: turn_inv_handlePrepDone)
next
  case Tick
  then show ?thesis using i by (simp add: tick_def)
qed (use i in \<open>simp_all add: turn_inv_handleStartExam turn_inv_setupNextPart_resume
      turn_inv_handleAiFinishedSpeaking turn_inv_stopRecording turn_inv_handleSubmission_resume\<close>)

lemma turn_inv_step: "turn_inv s \<Longrightarrow> turn_inv (step e s)"
  by (simp add: step_def Let_def turn_inv_handle turn_inv_timerEffect)

lemma turn_inv_run: "turn_inv s \<Longrightarrow> turn_inv (run es s)"
  by (induction es arbitrary: s) (simp_all add: turn_inv_step)

lemma turn_inv_entry: "part_entry s \<Longrightarrow> turn_inv s"
proof (induction rule: part_entry.induct)
  case (mounted initialPart standalone mic)
  show ?case by (rule turn_invI) (simp_all add: mount_def)
next
  case (advanced s)
  have eq: "partEffect (advancePart s) =
     s\<lparr> status := PROCESSING, isNewPartRef := True, currentFeedback := None,
        part := next_part (part s), turnCountRef := 0,
        topicRequest := Some (next_part (part s)) \<rparr>"
    using advanced by (cases "part s")
      (simp_all add: advancePart_def partEffect_def setupNextPart_def Let_def next_part_def)
  show ?case unfolding eq by (rule turn_invI) (use advanced in simp_all)
qed

lemmas handler_defs =
  playAiAudio_def startRecording_def handleSubmission_begin_def MediaRecorder_stop_def
  stopRecording_def handleSubmission_resume_def handleFinishWillingly_def handleSkipPart_def
  handlePrepDone_def handleSpeakingDone_def handleAiFinishedSpeaking_def setupNextPart_def
  setupNextPart_resume_def partEffect_def handleStartExam_def shouldRunTimer_def tick_def
  timerEffect_def timer_deps_def main_screen_def

subsection \<open>The turn counter\<close>

definition after_two_turns :: exam where
  "after_two_turns =
     run [StartExam, AiFinished, SubmitClick, EvalSettled (Inr r_cont),
          AiFinished, SubmitClick, EvalSettled (Inr r_cont), AiFinished]
       (mount INTRO False True)"

lemma after_two_turns_eval:
  "after_two_turns =
     (mount INTRO False True)
       \<lparr> hasStarted := True, status := USER_SPEAKING, aiMessage := ''And why?'',
         currentFeedback := Some (scores 8 7 9 8), timeLeft := 120, totalTime := 120,
         isNewPartRef := False, turnCountRef := 2, isRecording := True,
         mediaRecorderRef := Some Rec_recording \<rparr>"
  by (simp add: after_two_turns_def step_def mount_def handler_defs r_cont_def Let_def)

lemma timerEffect_turnCountRef: "turnCountRef (timerEffect s) = turnCountRef s"
  by (simp add: handler_defs Let_def split: option.splits RecordingState.splits)

lemma part_entry_turnCountRef: "part_entry s \<Longrightarrow> turnCountRef s = 0"
proof (induction rule: part_entry.induct)
  case (mounted initialPart standalone mic)
  show ?case by (simp add: mount_def)
next
  case (advanced s)
  then show ?case
    by (cases "part s")
       (simp_all add: advancePart_def partEffect_def setupNextPart_def Let_def next_part_def)
qed

lemma handle_turnCountRef:
  assumes i: "turn_inv s"
  shows "turnCountRef (handle e s) =
           turnCountRef s + (if completes_submission e s then 1 else 0)"
proof (cases e)
  case StartExam
  have "\<not> hasStarted s \<Longrightarrow> turnCountRef s = 0" by (rule turn_inv_facts(20) [OF i])
  then show ?thesis using StartExam
    by (simp add: handler_defs Let_def split: option.splits RecordingState.splits)
next
  case (EvalSettled settled)
  show ?thesis
  proof (cases "submission s")
    case None
    then show ?thesis using EvalSettled
      by (cases settled) (simp_all add: handleSubmission_resume_def)
  next
    case (Some n)
    then have "n = turnCountRef s + 1" by (rule turn_inv_facts(9) [OF i])
    then show ?thesis using EvalSettled Some
      by (cases settled) (simp_all add: handleSubmission_resume_def Let_def playAiAudio_def)
  qed
qed (simp_all add: handler_defs Let_def split: option.splits RecordingState.splits)

lemma step_turnCountRef:
  "turn_inv s \<Longrightarrow>
     turnCountRef (step e s) = turnCountRef s + (if completes_submission e s then 1 else 0)"
  by (simp add: step_def Let_def timerEffect_turnCountRef handle_turnCountRef)

text \<open>
  From an entry with nothing pending, in every run of events of the part the turn counter
  is 0 at the entry, never exceeds 3, is 3 only when the machine is in PART_COMPLETED,
  and every event changes it by exactly 1 when it is the successful completion of a
  submission and leaves it unchanged otherwise.
\<close>

lemma turn_counter_capped_from_quiet_entry:
  assumes "part_entry s0"
  shows "turnCountRef s0 = 0
       \<and> turnCountRef (run es s0) \<le> 3
       \<and> (turnCountRef (run es s0) = 3 \<longrightarrow> status (run es s0) = PART_COMPLETED)
       \<and> turnCountRef (step e (run es s0)) =
           turnCountRef (run es s0) + (if completes_submission e (run es s0) then 1 else 0)"
proof -
  have i: "turn_inv (run es s0)"
    by (rule turn_inv_run [OF turn_inv_entry [OF assms]])
  show ?thesis
    using part_entry_turnCountRef [OF assms] turn_inv_facts(2) [OF i] turn_inv_facts(3) [OF i]
      step_turnCountRef [OF i, of e]
    by blast
qed

lemma third_submission_eval:
  "run [SubmitClick, EvalSettled (Inr r_cont)] after_two_turns =
     after_two_turns
       \<lparr> status := PART_COMPLETED, resultsHistory := [INTRO \<mapsto> scores 8 7 9 8],
         turnCountRef := 3, isRecording := False, mediaRecorderRef := Some Rec_inactive \<rparr>"
  by (simp add: after_two_turns_eval step_def mount_def handler_defs r_cont_def Let_def)

text \<open>
  The summary of a part is rendered in PART_COMPLETED when there is a current feedback.
  Its button calls \<open>advancePart\<close>; the countdown effect and, when the part has
  changed, the effect on \<open>part\<close> run after it.
\<close>

definition summary_screen :: "exam \<Rightarrow> bool" where
  "summary_screen s = (hasStarted s \<and> status s = PART_COMPLETED \<and> currentFeedback s \<noteq> None)"

definition continue_step :: "exam \<Rightarrow> exam" where
  "continue_step s =
     (if summary_screen s then
        (let s1 = advancePart s;
             s2 = (if timer_deps s1 = timer_deps s then s1 else timerEffect s1)
         in if part s2 \<noteq> part s then partEffect s2 else s2)
      else s)"

text \<open>
  Part 1 of a full exam after two answered turns, the third answer being recorded; the
  user skips the part, and continues to Part 2 from the summary.
\<close>

definition third_turn_skipped :: exam where
  "third_turn_skipped = step SkipClick after_two_turns"

definition picture_entered :: exam where
  "picture_entered = continue_step third_turn_skipped"

lemma third_turn_skipped_eval:
  "third_turn_skipped =
     after_two_turns
       \<lparr> status := PART_COMPLETED, aiMessage := ''Part skipped.'',
         currentFeedback := Some skippedFeedback,
         resultsHistory := [INTRO \<mapsto> skippedFeedback], isRecording := False,
         mediaRecorderRef := Some Rec_inactive, submission := Some 3 \<rparr>"
  by (simp add: third_turn_skipped_def after_two_turns_eval step_def mount_def handler_defs
      Let_def)

lemma picture_entered_eval:
  "picture_entered =
     third_turn_skipped
       \<lparr> part := PICTURE, status := PROCESSING, currentFeedback := None, isNewPartRef := True,
         turnCountRef := 0, topicRequest := Some PICTURE \<rparr>"
  by (simp add: picture_entered_def continue_step_def summary_screen_def third_turn_skipped_eval
      after_two_turns_eval mount_def advancePart_def next_part_def handler_defs Let_def)

text \<open>
  Claim C1 at a concrete input. The skip of Part 1 stops the recorder, which submits the
  recording with \<open>nextTurn = 3\<close>; Part 2 is entered with the counter at 0 and that
  evaluation pending. When it succeeds the counter of Part 2 goes from 0 to 3 in one
  event, with no submission made in Part 2, and the machine goes to PART_COMPLETED. The
  topic of Part 2 then arrives and the part goes on with the counter at 3 (USER_SPEAKING
  after the preparation); the first answer given in Part 2 brings it to 4.
\<close>

theorem C1_stray_evaluation_raises_counter:
  "part after_two_turns = INTRO \<and> turnCountRef after_two_turns = 2
   \<and> isRecording after_two_turns
   \<and> status third_turn_skipped = PART_COMPLETED \<and> submission third_turn_skipped = Some 3
   \<and> part picture_entered = PICTURE \<and> turnCountRef picture_entered = 0
   \<and> status picture_entered = PROCESSING \<and> submission picture_entered = Some 3
   \<and> turnCountRef (step (EvalSettled (Inr r_cont)) picture_entered) = 3
   \<and> status (step (EvalSettled (Inr r_cont)) picture_entered) = PART_COMPLETED
   \<and> status (run [EvalSettled (Inr r_cont), TopicReady ''City vs Village'', AiFinished,
                   PrepDoneClick] picture_entered) = USER_SPEAKING
   \<and> turnCountRef (run [EvalSettled (Inr r_cont), TopicReady ''City vs Village'', AiFinished,
                   PrepDoneClick] picture_entered) = 3
   \<and> turnCountRef (run [EvalSettled (Inr r_cont), TopicReady ''City vs Village'', AiFinished,
                   PrepDoneClick, SubmitClick, EvalSettled (Inr r_cont)] picture_entered) = 4"
  by (simp add: picture_entered_eval third_turn_skipped_eval after_two_turns_eval step_def
      mount_def handler_defs Let_def r_cont_def)

subsection \<open>Evaluation results\<close>

lemma timerEffect_idle:
  "status s \<noteq> USER_PREP \<Longrightarrow> status s \<noteq> USER_SPEAKING \<Longrightarrow> timerEffect s = s"
  by (simp add: timerEffect_def shouldRunTimer_def)

lemma step_quiet:
  "status (handle e s) \<noteq> USER_PREP \<Longrightarrow> status (handle e s) \<noteq> USER_SPEAKING \<Longrightarrow>
     step e s = handle e s"
  by (simp add: step_def Let_def timerEffect_idle)

text \<open>
  Claim C2. When an evaluation succeeds with \<open>moveNext\<close> false and the turn counter
  reaches 3 with it, the machine goes to PART_COMPLETED and stores the returned feedback
  in the results history under the current part; no follow-up prompt is played.
\<close>

theorem C2_turn_cap_overrides_continue:
  assumes "submission s = Some nextTurn" and "3 \<le> nextTurn" and "\<not> moveNext result"
  shows "let s' = handleSubmission_resume (Inr result) s in
           turnCountRef s' = nextTurn
         \<and> status s' = PART_COMPLETED
         \<and> resultsHistory s' (part s) = Some (feedback result)
         \<and> currentFeedback s' = Some (feedback result)
         \<and> aiPlayback s' = aiPlayback s
         \<and> aiMessage s' = aiMessage s
         \<and> step (EvalSettled (Inr result)) s = s'"
proof -
  have eq: "handleSubmission_resume (Inr result) s =
      s\<lparr> submission := None, turnCountRef := nextTurn,
         currentFeedback := Some (feedback result),
         resultsHistory := (resultsHistory s)(part s \<mapsto> feedback result),
         status := PART_COMPLETED, autoAdvanceRef := False \<rparr>"
    using assms by (simp add: handleSubmission_resume_def Let_def)
  have st: "step (EvalSettled (Inr result)) s = handleSubmission_resume (Inr result) s"
    using step_quiet [of "EvalSettled (Inr result)" s] by (simp add: eq)
  show ?thesis unfolding Let_def st unfolding eq by simp
qed

definition third_answer_submitted :: exam where
  "third_answer_submitted = step SubmitClick after_two_turns"

lemma third_answer_submitted_eval:
  "third_answer_submitted =
     after_two_turns \<lparr> status := PROCESSING, isRecording := False,
                       mediaRecorderRef := Some Rec_inactive, submission := Some 3 \<rparr>"
  by (simp add: third_answer_submitted_def after_two_turns_eval step_def mount_def handler_defs
      Let_def)

theorem C2_turn_cap_witness:
  "submission third_answer_submitted = Some 3 \<and> (3::int) \<le> 3 \<and> \<not> moveNext r_cont
   \<and> part third_answer_submitted = INTRO
   \<and> status (handleSubmission_resume (Inr r_cont) third_answer_submitted) = PART_COMPLETED
   \<and> resultsHistory (handleSubmission_resume (Inr r_cont) third_answer_submitted) INTRO
        = Some (scores 8 7 9 8)"
proof -
  have a: "submission third_answer_submitted = Some 3"
    by (simp add: third_answer_submitted_eval)
  have b: "\<not> moveNext r_cont" by (simp add: r_cont_def)
  have p: "part third_answer_submitted = INTRO"
    by (simp add: third_answer_submitted_eval after_two_turns_eval mount_def)
  have f: "feedback r_cont = scores 8 7 9 8" by (simp add: r_cont_def)
  note t = C2_turn_cap_overrides_continue [OF a _ b, unfolded Let_def p f]
  have "status (handleSubmission_resume (Inr r_cont) third_answer_submitted) = PART_COMPLETED"
    using t by simp
  moreover have "resultsHistory (handleSubmission_resume (Inr r_cont) third_answer_submitted) INTRO
        = Some (scores 8 7 9 8)"
    using t by simp
  ultimately show ?thesis using a b p by simp
qed

text \<open>
  When the evaluation of a submission fails, the turn counter, the results history and
  the current feedback are unchanged, the prompt is the apology, and the status is IDLE.
  When it succeeds, the results history is either unchanged or changed in the entry of
  the current part only, which then holds the whole returned record.
\<close>

lemma failed_evaluation_leaves_state:
  assumes "submission s = Some nextTurn"
  shows "let s' = handleSubmission_resume (Inl error) s in
           turnCountRef s' = turnCountRef s
         \<and> resultsHistory s' = resultsHistory s
         \<and> currentFeedback s' = currentFeedback s
         \<and> aiMessage s' = apology
         \<and> status s' = IDLE
         \<and> quotaError s'
         \<and> submission s' = None
         \<and> step (EvalSettled (Inl error)) s = s'
         \<and> (resultsHistory (handleSubmission_resume (Inr result) s) = resultsHistory s
              \<or> resultsHistory (handleSubmission_resume (Inr result) s)
                  = (resultsHistory s)(part s \<mapsto> feedback result))"
proof -
  have eq: "handleSubmission_resume (Inl error) s =
      s\<lparr> submission := None, quotaError := True, aiMessage := apology, status := IDLE \<rparr>"
    using assms by (simp add: handleSubmission_resume_def)
  have st: "step (EvalSettled (Inl error)) s = handleSubmission_resume (Inl error) s"
    using step_quiet [of "EvalSettled (Inl error)" s] by (simp add: eq)
  have at: "resultsHistory (handleSubmission_resume (Inr result) s) = resultsHistory s
              \<or> resultsHistory (handleSubmission_resume (Inr result) s)
                  = (resultsHistory s)(part s \<mapsto> feedback result)"
    by (simp add: handleSubmission_resume_def playAiAudio_def Let_def split: option.splits)
  show ?thesis unfolding Let_def st using at unfolding eq by simp
qed

definition third_evaluation_failed :: exam where
  "third_evaluation_failed = step (EvalSettled (Inl network_down)) third_answer_submitted"

lemma third_evaluation_failed_eval:
  "third_evaluation_failed =
     third_answer_submitted
       \<lparr> submission := None, quotaError := True, aiMessage := apology, status := IDLE \<rparr>"
  by (simp add: third_evaluation_failed_def third_answer_submitted_eval after_two_turns_eval
      step_def mount_def handler_defs Let_def)

text \<open>
  Claim C5 at a concrete input: Part 1, two answered turns, the third answer submitted,
  and the evaluation fails. The turn counter, the results history and the current
  feedback are as before the failure and the prompt is the apology, which asks to try
  again. The machine is in IDLE on the main screen, where none of the buttons of the turn
  flow is rendered: every event leaves the state as it is (a change of the microphone
  permission is recorded and nothing else), also after the button of the error banner has
  cleared \<open>quotaError\<close>. So the turn cannot be retried, and the part cannot be
  finished or skipped.
\<close>

theorem C5_failed_evaluation_dead_end:
  "turnCountRef third_answer_submitted = 2
   \<and> turnCountRef third_evaluation_failed = 2
   \<and> resultsHistory third_evaluation_failed = resultsHistory third_answer_submitted
   \<and> currentFeedback third_evaluation_failed = currentFeedback third_answer_submitted
   \<and> aiMessage third_evaluation_failed = apology
   \<and> status third_evaluation_failed = IDLE
   \<and> main_screen third_evaluation_failed
   \<and> (\<forall>q e. step e (third_evaluation_failed \<lparr> quotaError := q \<rparr>) =
             third_evaluation_failed
               \<lparr> quotaError := q,
                 micGranted := (case e of MicPermission granted \<Rightarrow> granted
                                | _ \<Rightarrow> micGranted third_evaluation_failed) \<rparr>)"
proof -
  have "step e (third_evaluation_failed \<lparr> quotaError := q \<rparr>) =
             third_evaluation_failed
               \<lparr> quotaError := q,
                 micGranted := (case e of MicPermission granted \<Rightarrow> granted
                                | _ \<Rightarrow> micGranted third_evaluation_failed) \<rparr>" for q e
    by (cases e)
       (simp_all add: third_evaluation_failed_eval third_answer_submitted_eval
          after_two_turns_eval step_def mount_def handler_defs Let_def)
  then show ?thesis
    by (simp add: third_evaluation_failed_eval third_answer_submitted_eval
          after_two_turns_eval mount_def main_screen_def)
qed

subsection \<open>Finishing, follow-up turns and skipping\<close>






text \<open>
  Claim C8, as amended. On a follow-up turn (\<open>isNewPartRef\<close> is false), in a status
  other than COMPLETED and PART_COMPLETED, \<open>handleAiFinishedSpeaking\<close> enters
  USER_SPEAKING directly; it does not set the countdown: \<open>timeLeft\<close> and
  \<open>totalTime\<close> are left as they were.
\<close>

theorem C8_follow_up_keeps_countdown:
  assumes "\<not> isNewPartRef s" and "status s \<noteq> COMPLETED" and "status s \<noteq> PART_COMPLETED"
  shows "let s' = handleAiFinishedSpeaking s in
           status s' = USER_SPEAKING
         \<and> timeLeft s' = timeLeft s
         \<and> totalTime s' = totalTime s"
  using assms
  by (cases "part s") (simp_all add: handleAiFinishedSpeaking_def startRecording_def Let_def)

definition first_answer_evaluated :: exam where
  "first_answer_evaluated =
     run [StartExam, AiFinished, Tick, Tick, SubmitClick, EvalSettled (Inr r_cont)]
       (mount INTRO False True)"

lemma first_answer_evaluated_eval:
  "first_answer_evaluated =
     (mount INTRO False True)
       \<lparr> hasStarted := True, status := AI_SPEAKING, aiMessage := ''And why?'',
         currentFeedback := Some (scores 8 7 9 8), timeLeft := 118, totalTime := 120,
         isNewPartRef := False, turnCountRef := 1, isRecording := False,
         mediaRecorderRef := Some Rec_inactive, aiPlayback := True \<rparr>"
  by (simp add: first_answer_evaluated_def step_def mount_def handler_defs r_cont_def Let_def)

theorem C8_follow_up_witness:
  "\<not> isNewPartRef first_answer_evaluated \<and> status first_answer_evaluated = AI_SPEAKING
   \<and> status (handleAiFinishedSpeaking first_answer_evaluated) = USER_SPEAKING
   \<and> timeLeft (handleAiFinishedSpeaking first_answer_evaluated) = 118
   \<and> totalTime (handleAiFinishedSpeaking first_answer_evaluated) = 120"
proof -
  have h: "\<not> isNewPartRef first_answer_evaluated" "status first_answer_evaluated = AI_SPEAKING"
    "timeLeft first_answer_evaluated = 118" "totalTime first_answer_evaluated = 120"
    by (simp_all add: first_answer_evaluated_eval mount_def)
  have "status first_answer_evaluated \<noteq> COMPLETED" "status first_answer_evaluated \<noteq> PART_COMPLETED"
    using h(2) by simp_all
  note t = C8_follow_up_keeps_countdown [OF h(1) this, unfolded Let_def]
  show ?thesis using t h by simp
qed

text \<open>
  The claim as stated fails: after a first answer of two seconds the follow-up turn starts
  with 118 seconds left, not 120.
\<close>

theorem C8_countdown_not_reset_counterexample:
  "turnCountRef (step AiFinished first_answer_evaluated) = 1
   \<and> status (step AiFinished first_answer_evaluated) = USER_SPEAKING
   \<and> timeLeft (step AiFinished first_answer_evaluated) = 118
   \<and> timeLeft (step AiFinished first_answer_evaluated) \<noteq> 120"
  by (simp add: first_answer_evaluated_eval step_def mount_def handler_defs Let_def)

definition picture_part_recording :: exam where
  "picture_part_recording =
     run [StartExam, TopicReady ''City vs Village'', AiFinished, PrepDoneClick]
       (mount PICTURE True True)"

lemma picture_part_recording_eval:
  "picture_part_recording =
     (mount PICTURE True True)
       \<lparr> hasStarted := True, status := USER_SPEAKING, aiMessage := picture_instructions,
         timeLeft := 120, totalTime := 120, isNewPartRef := False, isRecording := True,
         mediaRecorderRef := Some Rec_recording \<rparr>"
  by (simp add: picture_part_recording_def step_def mount_def handler_defs Let_def)

lemma handleSkipPart_writes_zero_record:
  "resultsHistory (handleSkipPart s) (part s) = Some skippedFeedback
   \<and> currentFeedback (handleSkipPart s) = Some skippedFeedback
   \<and> status (handleSkipPart s) = PART_COMPLETED"
  by (simp add: handleSkipPart_def MediaRecorder_stop_def handleSubmission_begin_def Let_def
      split: option.splits RecordingState.splits)

text \<open>
  Claim C4 at a concrete input: Part 2, USER_SPEAKING, the recorder running. Skipping
  writes the zero record and enters PART_COMPLETED, and the \<open>stop()\<close> of the recorder
  submits the recording. When the evaluation returns with \<open>moveNext\<close>, the record of
  the part is the evaluated one; when it asks to continue, the machine leaves
  PART_COMPLETED for AI_SPEAKING; when it fails, the machine is in IDLE.
\<close>

theorem C4_skip_while_recording_is_overwritten:
  "status picture_part_recording = USER_SPEAKING \<and> isRecording picture_part_recording
   \<and> resultsHistory (step SkipClick picture_part_recording) PICTURE = Some skippedFeedback
   \<and> status (step SkipClick picture_part_recording) = PART_COMPLETED
   \<and> submission (step SkipClick picture_part_recording) = Some 1
   \<and> resultsHistory (run [SkipClick, EvalSettled (Inr r_next)] picture_part_recording) PICTURE
        = Some (scores 9 8 7 9)
   \<and> scores 9 8 7 9 \<noteq> skippedFeedback
   \<and> turnCountRef (run [SkipClick, EvalSettled (Inr r_next)] picture_part_recording) = 1
   \<and> status (run [SkipClick, EvalSettled (Inr r_cont)] picture_part_recording) = AI_SPEAKING
   \<and> status (run [SkipClick, EvalSettled (Inl network_down)] picture_part_recording) = IDLE"
  by (simp add: picture_part_recording_eval step_def mount_def handler_defs Let_def
      r_next_def r_cont_def scores_def skippedFeedback_def)

subsection \<open>The countdown, proved\<close>

lemma run_append: "run (xs @ ys) s = run ys (run xs s)"
  by (induction xs arbitrary: s) simp_all

lemma expiries_append: "expiries (xs @ ys) s = expiries xs s + expiries ys (run xs s)"
  by (induction xs arbitrary: s) (simp_all add: Let_def)

lemma step_Tick_running:
  assumes "status s = USER_PREP \<or> status s = USER_SPEAKING" and "1 < timeLeft s"
  shows "step Tick s = s\<lparr> timeLeft := timeLeft s - 1 \<rparr>"
    and "expiries [Tick] s = 0"
  using assms
  by (auto simp: step_def Let_def shouldRunTimer_def tick_def timer_deps_def timerEffect_def
      timeExpired_def)

lemma step_Tick_stopped:
  assumes "\<not> shouldRunTimer s"
  shows "step Tick s = s" and "expiries [Tick] s = 0"
  using assms by (simp_all add: step_def Let_def)

lemma step_Tick_last_prep:
  assumes "status s = USER_PREP" and "timeLeft s = 1" and "hasStarted s"
  shows "step Tick s = handlePrepDone (s\<lparr> timeLeft := 0 \<rparr>)"
    and "expiries [Tick] s = 1"
  using assms
  by (simp_all add: step_def Let_def shouldRunTimer_def tick_def timer_deps_def timerEffect_def
      timeExpired_def)

lemma step_Tick_last_speaking:
  assumes "status s = USER_SPEAKING" and "isRecording s" and "timeLeft s = 1" and "hasStarted s"
  shows "step Tick s = handleSpeakingDone (s\<lparr> timeLeft := 0 \<rparr>)"
    and "expiries [Tick] s = 1"
  using assms
  by (simp_all add: step_def Let_def shouldRunTimer_def tick_def timer_deps_def timerEffect_def
      timeExpired_def)

lemma step_Tick_last_silent:
  assumes "status s = USER_SPEAKING" and "\<not> isRecording s" and "timeLeft s = 1"
  shows "step Tick s = s\<lparr> timeLeft := 0 \<rparr>"
    and "expiries [Tick] s = 0"
  using assms
  by (simp_all add: step_def Let_def shouldRunTimer_def tick_def timer_deps_def timerEffect_def
      timeExpired_def)

lemma countdown_running:
  assumes "status s = USER_PREP \<or> status s = USER_SPEAKING" and "timeLeft s = int n" and "k < n"
  shows "run (replicate k Tick) s = s\<lparr> timeLeft := int n - int k \<rparr>
         \<and> expiries (replicate k Tick) s = 0"
  using assms
proof (induction k arbitrary: s n)
  case 0
  then show ?case by simp
next
  case (Suc k)
  have t: "1 < timeLeft s" using Suc.prems by simp
  note st = step_Tick_running [OF Suc.prems(1) t]
  have n: "timeLeft (s\<lparr> timeLeft := timeLeft s - 1 \<rparr>) = int (n - 1)"
    using Suc.prems by simp
  have k: "k < n - 1" using Suc.prems by simp
  have "status (s\<lparr> timeLeft := timeLeft s - 1 \<rparr>) = USER_PREP
        \<or> status (s\<lparr> timeLeft := timeLeft s - 1 \<rparr>) = USER_SPEAKING"
    using Suc.prems(1) by simp
  from Suc.IH [OF this n k] st Suc.prems show ?case
    by (simp add: Let_def of_nat_diff)
qed

lemma idle_ticks:
  "\<not> shouldRunTimer s \<Longrightarrow> run (replicate m Tick) s = s \<and> expiries (replicate m Tick) s = 0"
  by (induction m) (simp_all add: step_Tick_stopped Let_def)

lemma timerEffect_idem: "timerEffect (timerEffect s) = timerEffect s"
  by (simp add: timerEffect_def shouldRunTimer_def handlePrepDone_def handleSpeakingDone_def
      startRecording_def stopRecording_def MediaRecorder_stop_def handleSubmission_begin_def
      Let_def split: option.splits RecordingState.splits)

lemma timerEffect_range:
  "0 \<le> timeLeft s \<and> timeLeft s \<le> totalTime s \<Longrightarrow>
   0 \<le> timeLeft (timerEffect s) \<and> timeLeft (timerEffect s) \<le> totalTime (timerEffect s)"
  by (simp add: timerEffect_def shouldRunTimer_def handlePrepDone_def handleSpeakingDone_def
      startRecording_def stopRecording_def MediaRecorder_stop_def handleSubmission_begin_def
      Let_def split: option.splits RecordingState.splits)

lemma handle_range:
  "0 \<le> timeLeft s \<and> timeLeft s \<le> totalTime s \<Longrightarrow>
   0 \<le> timeLeft (handle e s) \<and> timeLeft (handle e s) \<le> totalTime (handle e s)"
  by (cases e)
     (auto simp: handler_defs Let_def split: option.splits RecordingState.splits sum.splits)

lemma step_range:
  "0 \<le> timeLeft s \<and> timeLeft s \<le> totalTime s \<Longrightarrow>
   0 \<le> timeLeft (step e s) \<and> timeLeft (step e s) \<le> totalTime (step e s)"
  unfolding step_def Let_def
  using handle_range [of s e] timerEffect_range [of "handle e s"] by presburger

lemma countdown_without_recording:
  assumes "status s = USER_SPEAKING" and "\<not> isRecording s" and "timeLeft s = int n"
  shows "run (replicate (n + m) Tick) s = s\<lparr> timeLeft := 0 \<rparr>
         \<and> expiries (replicate (n + m) Tick) s = 0"
  using assms
proof (induction n arbitrary: s)
  case 0
  then have "\<not> shouldRunTimer s" by (simp add: shouldRunTimer_def)
  from idle_ticks [OF this, of m] 0 show ?case by simp
next
  case (Suc n)
  have st: "step Tick s = s\<lparr> timeLeft := int n \<rparr> \<and> expiries [Tick] s = 0"
  proof (cases "n = 0")
    case True
    then have "timeLeft s = 1" using Suc.prems by simp
    from step_Tick_last_silent [OF Suc.prems(1,2) this] True show ?thesis by simp
  next
    case False
    then have "1 < timeLeft s" using Suc.prems by simp
    from step_Tick_running [OF _ this] Suc.prems show ?thesis by simp
  qed
  have "run (replicate (n + m) Tick) (s\<lparr> timeLeft := int n \<rparr>) = s\<lparr> timeLeft := int n \<rparr>\<lparr> timeLeft := 0 \<rparr>
         \<and> expiries (replicate (n + m) Tick) (s\<lparr> timeLeft := int n \<rparr>) = 0"
    by (rule Suc.IH) (use Suc.prems in simp_all)
  with st show ?case by (simp add: Let_def)
qed

lemma countdown_expiry:
  assumes "hasStarted s" and "timeLeft s = int n" and "0 < n"
    and "status s = USER_PREP
         \<or> (status s = USER_SPEAKING \<and> isRecording s \<and> mediaRecorderRef s \<noteq> None)"
  shows "\<forall>k<n. run (replicate k Tick) s = s\<lparr> timeLeft := int n - int k \<rparr>
                \<and> expiries (replicate k Tick) s = 0"
    and "run (replicate n Tick) s =
            (if status s = USER_PREP then handlePrepDone (s\<lparr> timeLeft := 0 \<rparr>)
             else handleSpeakingDone (s\<lparr> timeLeft := 0 \<rparr>))"
    and "expiries (replicate n Tick) s = 1"
    and "\<not> timeExpired (run (replicate n Tick) s)"
proof -
  have st: "status s = USER_PREP \<or> status s = USER_SPEAKING" using assms(4) by blast
  show a: "\<forall>k<n. run (replicate k Tick) s = s\<lparr> timeLeft := int n - int k \<rparr>
                \<and> expiries (replicate k Tick) s = 0"
    using countdown_running [OF st assms(2)] by blast
  define s1 where "s1 = s\<lparr> timeLeft := 1 \<rparr>"
  have r1: "run (replicate (n - 1) Tick) s = s1" and e1: "expiries (replicate (n - 1) Tick) s = 0"
    using a [rule_format, of "n - 1"] assms(3) unfolding s1_def by (simp_all add: of_nat_diff)
  have split: "replicate n Tick = replicate (n - 1) Tick @ [Tick]"
    using assms(3) by (cases n) (simp_all add: replicate_append_same)
  have last: "step Tick s1 =
            (if status s = USER_PREP then handlePrepDone (s\<lparr> timeLeft := 0 \<rparr>)
             else handleSpeakingDone (s\<lparr> timeLeft := 0 \<rparr>))
        \<and> expiries [Tick] s1 = 1"
  proof (cases "status s = USER_PREP")
    case True
    have "step Tick s1 = handlePrepDone (s1\<lparr> timeLeft := 0 \<rparr>)" "expiries [Tick] s1 = 1"
      by (rule step_Tick_last_prep; simp add: s1_def True assms(1))+
    then show ?thesis using True by (simp add: s1_def)
  next
    case False
    then have sp: "status s = USER_SPEAKING" "isRecording s" using assms(4) by auto
    have "step Tick s1 = handleSpeakingDone (s1\<lparr> timeLeft := 0 \<rparr>)" "expiries [Tick] s1 = 1"
      by (rule step_Tick_last_speaking; simp add: s1_def sp assms(1))+
    then show ?thesis using False by (simp add: s1_def)
  qed
  show b: "run (replicate n Tick) s =
            (if status s = USER_PREP then handlePrepDone (s\<lparr> timeLeft := 0 \<rparr>)
             else handleSpeakingDone (s\<lparr> timeLeft := 0 \<rparr>))"
  proof -
    have "run (replicate n Tick) s = run [Tick] (run (replicate (n - 1) Tick) s)"
      by (subst split) (rule run_append)
    also have "\<dots> = step Tick s1" unfolding r1 by simp
    finally show ?thesis using last by simp
  qed
  show "expiries (replicate n Tick) s = 1"
  proof -
    have "expiries (replicate n Tick) s =
        expiries (replicate (n - 1) Tick) s + expiries [Tick] (run (replicate (n - 1) Tick) s)"
      by (subst split) (rule expiries_append)
    also have "\<dots> = 1" unfolding r1 e1 using last by simp
    finally show ?thesis .
  qed
  show "\<not> timeExpired (run (replicate n Tick) s)"
    unfolding b using assms(4)
    by (auto simp: timeExpired_def shouldRunTimer_def handlePrepDone_def handleSpeakingDone_def
        startRecording_def stopRecording_def MediaRecorder_stop_def handleSubmission_begin_def
        Let_def split: option.splits RecordingState.splits)
qed

text \<open>
  Claim C6, as amended. A countdown of \<open>n > 0\<close> seconds in USER_PREP, or in
  USER_SPEAKING while a recording is active, in which only ticks occur: each of the first
  \<open>n - 1\<close> ticks lowers \<open>timeLeft\<close> by 1 and changes nothing else; tick \<open>n\<close>
  brings it to 0 and the effect calls the handler of the expired countdown, once in the
  whole run; after that the expiry condition is false, and running the effect again changes
  nothing. In any other status a tick changes nothing, and every step keeps \<open>timeLeft\<close>
  between 0 and \<open>totalTime\<close>.
\<close>

theorem C6_countdown_expires_once:
  assumes "hasStarted s" and "timeLeft s = int n" and "0 < n"
    and "status s = USER_PREP
         \<or> (status s = USER_SPEAKING \<and> isRecording s \<and> mediaRecorderRef s \<noteq> None)"
  shows "(\<forall>k<n. run (replicate k Tick) s = s\<lparr> timeLeft := int n - int k \<rparr>
                \<and> expiries (replicate k Tick) s = 0)
       \<and> run (replicate n Tick) s =
            (if status s = USER_PREP then handlePrepDone (s\<lparr> timeLeft := 0 \<rparr>)
             else handleSpeakingDone (s\<lparr> timeLeft := 0 \<rparr>))
       \<and> expiries (replicate n Tick) s = 1
       \<and> \<not> timeExpired (run (replicate n Tick) s)
       \<and> timerEffect (timerEffect x) = timerEffect x
       \<and> (status x \<noteq> USER_PREP \<and> status x \<noteq> USER_SPEAKING \<longrightarrow> step Tick x = x)
       \<and> (0 \<le> timeLeft x \<and> timeLeft x \<le> totalTime x \<longrightarrow>
            0 \<le> timeLeft (step e x) \<and> timeLeft (step e x) \<le> totalTime (step e x))"
proof -
  have f: "status x \<noteq> USER_PREP \<and> status x \<noteq> USER_SPEAKING \<longrightarrow> step Tick x = x"
    by (simp add: step_def Let_def shouldRunTimer_def)
  show ?thesis
    using countdown_expiry [OF assms] timerEffect_idem [of x] f step_range [of x e] by blast
qed

definition picture_prep_started :: exam where
  "picture_prep_started =
     run [StartExam, TopicReady ''City vs Village'', AiFinished] (mount PICTURE True True)"

lemma picture_prep_started_eval:
  "picture_prep_started =
     (mount PICTURE True True)
       \<lparr> hasStarted := True, status := USER_PREP, aiMessage := picture_instructions,
         timeLeft := 60, totalTime := 60 \<rparr>"
  by (simp add: picture_prep_started_def step_def mount_def handler_defs Let_def)

theorem C6_countdown_witness:
  "hasStarted picture_prep_started \<and> timeLeft picture_prep_started = int 60
   \<and> status picture_prep_started = USER_PREP
   \<and> run (replicate 59 Tick) picture_prep_started = picture_prep_started \<lparr> timeLeft := 1 \<rparr>
   \<and> expiries (replicate 59 Tick) picture_prep_started = 0
   \<and> expiries (replicate 60 Tick) picture_prep_started = 1
   \<and> status (run (replicate 60 Tick) picture_prep_started) = USER_SPEAKING
   \<and> timeLeft (run (replicate 60 Tick) picture_prep_started) = 120"
proof -
  have h: "hasStarted picture_prep_started" "timeLeft picture_prep_started = int 60"
    "status picture_prep_started = USER_PREP"
    by (simp_all add: picture_prep_started_eval mount_def)
  have p: "status picture_prep_started = USER_PREP
         \<or> (status picture_prep_started = USER_SPEAKING \<and> isRecording picture_prep_started
             \<and> mediaRecorderRef picture_prep_started \<noteq> None)"
    using h(3) by simp
  note t = C6_countdown_expires_once [OF h(1,2) _ p, of picture_prep_started Tick]
  have a: "run (replicate 59 Tick) picture_prep_started = picture_prep_started \<lparr> timeLeft := 1 \<rparr>
      \<and> expiries (replicate 59 Tick) picture_prep_started = 0"
    using t by simp
  have b: "run (replicate 60 Tick) picture_prep_started
             = handlePrepDone (picture_prep_started \<lparr> timeLeft := 0 \<rparr>)"
    using t h(3) by simp
  have c: "expiries (replicate 60 Tick) picture_prep_started = 1" using t by simp
  show ?thesis
    using h a c unfolding b
    by (simp add: handlePrepDone_def startRecording_def)
qed

definition speaking_without_microphone :: exam where
  "speaking_without_microphone = run [StartExam, AiFinished] (mount INTRO False False)"

lemma speaking_without_microphone_eval:
  "speaking_without_microphone =
     (mount INTRO False False)
       \<lparr> hasStarted := True, status := USER_SPEAKING, timeLeft := 120, totalTime := 120,
         isNewPartRef := False \<rparr>"
  by (simp add: speaking_without_microphone_def step_def mount_def handler_defs Let_def)

text \<open>
  The claim as stated fails: in USER_SPEAKING with no recording (the microphone was
  denied) the countdown from 120 reaches 0 and no handler is ever called.
\<close>

theorem C6_no_expiry_without_recording_counterexample:
  "hasStarted speaking_without_microphone
   \<and> status speaking_without_microphone = USER_SPEAKING
   \<and> timeLeft speaking_without_microphone = 120
   \<and> timeLeft (run (replicate 120 Tick) speaking_without_microphone) = 0
   \<and> status (run (replicate 120 Tick) speaking_without_microphone) = USER_SPEAKING
   \<and> expiries (replicate 120 Tick) speaking_without_microphone = 0
   \<and> expiries (replicate 300 Tick) speaking_without_microphone = 0"
proof -
  have h: "status speaking_without_microphone = USER_SPEAKING"
    "\<not> isRecording speaking_without_microphone"
    "timeLeft speaking_without_microphone = int 120"
    "hasStarted speaking_without_microphone"
    by (simp_all add: speaking_without_microphone_eval mount_def)
  from countdown_without_recording [OF h(1,2,3), of 0]
       countdown_without_recording [OF h(1,2,3), of 180] h
  show ?thesis by simp
qed

text \<open>
  A remark on follow-up turns, which keep the countdown of the turn before (claim C8):
  when the first answer ran until the countdown expired, the follow-up turn starts with
  \<open>timeLeft = 0\<close>, and the countdown effect stops and submits its recording at once.
\<close>

definition first_answer_timed_out :: exam where
  "first_answer_timed_out =
     run (replicate 120 Tick) (run [StartExam, AiFinished] (mount INTRO False True))"

lemma first_answer_timed_out_eval:
  "first_answer_timed_out =
     (mount INTRO False True)
       \<lparr> hasStarted := True, status := PROCESSING, timeLeft := 0, totalTime := 120,
         isNewPartRef := False, isRecording := False, mediaRecorderRef := Some Rec_inactive,
         submission := Some 1 \<rparr>"
proof -
  define s where "s = run [StartExam, AiFinished] (mount INTRO False True)"
  have s: "s = (mount INTRO False True)
       \<lparr> hasStarted := True, status := USER_SPEAKING, timeLeft := 120, totalTime := 120,
         isNewPartRef := False, isRecording := True, mediaRecorderRef := Some Rec_recording \<rparr>"
    by (simp add: s_def step_def mount_def handler_defs Let_def)
  have "run (replicate 120 Tick) s = handleSpeakingDone (s\<lparr> timeLeft := 0 \<rparr>)"
    using countdown_expiry(2) [of s 120] by (simp add: s mount_def)
  then show ?thesis
    unfolding first_answer_timed_out_def s_def [symmetric]
    by (simp add: s mount_def handler_defs Let_def)
qed

lemma follow_up_after_time_out:
  "status (run [EvalSettled (Inr r_cont), AiFinished] first_answer_timed_out) = PROCESSING
   \<and> submission (run [EvalSettled (Inr r_cont), AiFinished] first_answer_timed_out) = Some 2
   \<and> expiries [EvalSettled (Inr r_cont), AiFinished] first_answer_timed_out = 1"
  by (simp add: first_answer_timed_out_eval step_def mount_def handler_defs timeExpired_def
      r_cont_def Let_def)

end
